theory Spec2Isabelle
  imports Main "HOL-Library.Word" "HOL-Library.AList"
begin

section \<open>Data model of \<^verbatim>\<open>val.hpp\<close>\<close>

text \<open>
  Addresses and \<^verbatim>\<open>size_t\<close> are 64-bit words; the null pointer is the word 0.
  A class is named by a number. Handles (\<^verbatim>\<open>ptr<T>\<close> objects) are named by their
  position in the list of handles of the state.
\<close>

type_synonym addr = "64 word"
type_synonym ty = nat
type_synonym hid = nat

abbreviation nullptr :: addr where
  "nullptr \<equiv> 0"

text \<open>
  The classes a program instantiates the templates with are not part of the header.
  They are a parameter: \<open>base_disp cs U T = Some k\<close> says that \<open>T\<close> is \<open>U\<close> itself or an
  unambiguous accessible base class of \<open>U\<close> whose sub-object lies \<open>k\<close> bytes into a \<open>U\<close>
  object; \<open>sizeof\<close>, \<open>copy_constructible\<close>, \<open>move_constructible\<close> are
  \<^verbatim>\<open>sizeof(T)\<close>, \<^verbatim>\<open>std::is_copy_constructible<T>\<close>, \<^verbatim>\<open>std::is_move_constructible<T>\<close>;
  \<open>copy_construct\<close> and \<open>move_construct\<close> are what the class's own copy and move
  constructors make of the data members of their argument; \<open>type_name\<close> is the address of
  \<^verbatim>\<open>typeid(T).name()\<close>.
\<close>

record classes =
  base_disp :: "ty \<Rightarrow> ty \<Rightarrow> nat option"
  sizeof :: "ty \<Rightarrow> nat"
  copy_constructible :: "ty \<Rightarrow> bool"
  move_constructible :: "ty \<Rightarrow> bool"
  copy_construct :: "ty \<Rightarrow> int list \<Rightarrow> int list"
  move_construct :: "ty \<Rightarrow> int list \<Rightarrow> int list"
  type_name :: "ty \<Rightarrow> addr"

text \<open>\<^verbatim>\<open>enum operation\<close> (\<open>TYPE\<close> is a reserved word of the logic, hence \<open>TYPE_OP\<close>).\<close>

datatype operation = CLONE | DELETE | DESTRUCT | SIZE | TYPE_OP

text \<open>
  \<^verbatim>\<open>struct block\<close>. The counter is an \<^verbatim>\<open>intptr_t\<close>; it counts \<^verbatim>\<open>ptr\<close> objects, each of
  which occupies more than one byte of a 64-bit address space, so it cannot leave the
  range of \<^verbatim>\<open>intptr_t\<close> and is modelled as an integer.
\<close>

record block =
  count :: int
  data :: addr

text \<open>A stored value: its dynamic (most derived) class and its data members.\<close>

record obj =
  dyn :: ty
  members :: "int list"

text \<open>
  What lies at an address: a block, a stored value, or storage for a value of a class in
  which no value lives (what a destructor call leaves of the storage it did not
  allocate).
\<close>

datatype cell = Block_cell block | Obj_cell obj | Raw_cell ty

text \<open>
  \<^verbatim>\<open>struct descriptor_t\<close>. The function pointer \<open>op_ptr\<close> is \<^verbatim>\<open>&val_detail::op<U>\<close>; it is
  represented by the class \<open>U\<close> it was instantiated for.
\<close>

record descriptor_t =
  block_ptr :: addr
  upcast_offset :: "64 word"
  op_ptr :: ty

text \<open>
  The memory: the live blocks and values by address, and the live \<^verbatim>\<open>ptr\<close> objects, each
  holding its descriptor (a destroyed \<^verbatim>\<open>ptr\<close> leaves \<open>None\<close> in its slot).
\<close>

record state =
  heap :: "(addr \<times> cell) list"
  handles :: "descriptor_t option list"

text \<open>
  What ends an operation other than returning: the three exceptions the header or
  \<^verbatim>\<open>operator new\<close> throw, \<^verbatim>\<open>std::terminate\<close>, \<^verbatim>\<open>abort()\<close>, and undefined behaviour (an
  access through a pointer to nothing).
\<close>

datatype fault = Invalid_Argument | Logic_Error | Bad_Alloc | Terminate | Abort | Undefined_Behaviour

text \<open>An operation returns a value and the new state, or fails in the state reached.\<close>

datatype 'a result = Ok 'a state | Fail fault state

definition ret :: "'a \<Rightarrow> state \<Rightarrow> 'a result" where
  "ret x s = Ok x s"

definition seq :: "(state \<Rightarrow> 'a result) \<Rightarrow> ('a \<Rightarrow> state \<Rightarrow> 'b result) \<Rightarrow> state \<Rightarrow> 'b result" where
  "seq m f s = (case m s of Ok x s' \<Rightarrow> f x s' | Fail e s' \<Rightarrow> Fail e s')"

definition throw :: "fault \<Rightarrow> state \<Rightarrow> 'a result" where
  "throw e s = Fail e s"

section \<open>The allocator\<close>

text \<open>
  \<^verbatim>\<open>operator new\<close> hands out the first address above every live cell, and throws
  \<^verbatim>\<open>std::bad_alloc\<close> when the address space is used up. A block is two 8-byte atomics.
\<close>

definition cell_size :: "classes \<Rightarrow> cell \<Rightarrow> nat" where
  "cell_size cs c =
     (case c of
        Block_cell b \<Rightarrow> 16
      | Obj_cell ob \<Rightarrow> max 1 (sizeof cs (dyn ob))
      | Raw_cell T \<Rightarrow> max 1 (sizeof cs T))"

definition heap_top :: "classes \<Rightarrow> (addr \<times> cell) list \<Rightarrow> nat" where
  "heap_top cs h = fold (\<lambda>(a, c) m. max m (unat a + cell_size cs c)) h 1"

definition operator_new :: "classes \<Rightarrow> nat \<Rightarrow> state \<Rightarrow> addr result" where
  "operator_new cs n s =
     (let t = heap_top cs (heap s)
      in if t + n < 2 ^ 64 then Ok (of_nat t) s else Fail Bad_Alloc s)"

definition store :: "addr \<Rightarrow> cell \<Rightarrow> state \<Rightarrow> unit result" where
  "store a c s = Ok () (s\<lparr>heap := AList.update a c (heap s)\<rparr>)"

definition release :: "addr \<Rightarrow> state \<Rightarrow> unit result" where
  "release a s = Ok () (s\<lparr>heap := AList.delete a (heap s)\<rparr>)"

definition load_block :: "addr \<Rightarrow> state \<Rightarrow> block result" where
  "load_block b s =
     (case map_of (heap s) b of Some (Block_cell blk) \<Rightarrow> Ok blk s | _ \<Rightarrow> Fail Undefined_Behaviour s)"

definition load_obj :: "addr \<Rightarrow> state \<Rightarrow> obj result" where
  "load_obj a s =
     (case map_of (heap s) a of Some (Obj_cell ob) \<Rightarrow> Ok ob s | _ \<Rightarrow> Fail Undefined_Behaviour s)"

section \<open>\<^verbatim>\<open>val_detail::block\<close>\<close>

text \<open>
  \<^verbatim>\<open>explicit block(void * d) : count(0), data(d)\<close>, throwing \<^verbatim>\<open>std::invalid_argument\<close>
  on a null \<open>d\<close>.
\<close>

definition block_ctor :: "addr \<Rightarrow> fault + block" where
  "block_ctor d = (if d = nullptr then Inl Invalid_Argument else Inr \<lparr>count = 0, data = d\<rparr>)"

text \<open>
  \<^verbatim>\<open>new block(d)\<close>: memory from \<^verbatim>\<open>operator new\<close>, then the constructor; when the constructor
  throws, the memory is given back and nothing has changed.
\<close>

definition new_block :: "classes \<Rightarrow> addr \<Rightarrow> state \<Rightarrow> addr result" where
  "new_block cs d =
     seq (operator_new cs 16) (\<lambda>a.
       case block_ctor d of
         Inl e \<Rightarrow> throw e
       | Inr blk \<Rightarrow> seq (store a (Block_cell blk)) (\<lambda>_. ret a))"

text \<open>\<^verbatim>\<open>void increment() { count.fetch_add(1); }\<close>\<close>

definition increment :: "addr \<Rightarrow> state \<Rightarrow> unit result" where
  "increment b =
     seq (load_block b) (\<lambda>blk. store b (Block_cell (blk\<lparr>count := count blk + 1\<rparr>)))"

text \<open>\<^verbatim>\<open>void decrement() { if (count.fetch_sub(1) == 1) { delete this; } }\<close>\<close>

definition decrement :: "addr \<Rightarrow> state \<Rightarrow> unit result" where
  "decrement b =
     seq (load_block b) (\<lambda>blk.
     seq (store b (Block_cell (blk\<lparr>count := count blk - 1\<rparr>))) (\<lambda>_.
       if count blk = 1 then release b else ret ()))"

section \<open>Pointer conversions of the language\<close>

text \<open>
  The C-style cast \<^verbatim>\<open>(T* )p\<close> of a non-null \<^verbatim>\<open>U*\<close>: a \<^verbatim>\<open>static_cast\<close> to the base
  sub-object when \<open>T\<close> is a base of \<open>U\<close>, the reverse adjustment when \<open>U\<close> is a base of \<open>T\<close>,
  and a \<^verbatim>\<open>reinterpret_cast\<close> between unrelated classes.
\<close>

definition c_cast :: "classes \<Rightarrow> ty \<Rightarrow> ty \<Rightarrow> addr \<Rightarrow> addr" where
  "c_cast cs T U p =
     (case base_disp cs U T of
        Some k \<Rightarrow> p + of_nat k
      | None \<Rightarrow> (case base_disp cs T U of Some k \<Rightarrow> p - of_nat k | None \<Rightarrow> p))"

text \<open>\<^verbatim>\<open>return (size_t)((T* )((U* )1)) - 1;\<close>\<close>

definition compute_upcast_offset :: "classes \<Rightarrow> ty \<Rightarrow> ty \<Rightarrow> 64 word" where
  "compute_upcast_offset cs T U = c_cast cs T U 1 - 1"

text \<open>
  \<^verbatim>\<open>dynamic_cast<T*>(p)\<close> of a \<^verbatim>\<open>U*\<close>. To the pointer's own class it is the identity and
  looks at nothing. Otherwise it finds the complete object of which \<open>p\<close> is the \<open>U\<close>
  sub-object and returns its \<open>T\<close> sub-object, or null when the object's class has none.
\<close>

definition sub_object :: "classes \<Rightarrow> ty \<Rightarrow> addr \<Rightarrow> addr \<times> cell \<Rightarrow> bool" where
  "sub_object cs U p ac =
     (case snd ac of
        Obj_cell ob \<Rightarrow> (case base_disp cs (dyn ob) U of
                         Some k \<Rightarrow> fst ac + of_nat k = p
                       | None \<Rightarrow> False)
      | _ \<Rightarrow> False)"

definition dynamic_cast :: "classes \<Rightarrow> ty \<Rightarrow> ty \<Rightarrow> addr \<Rightarrow> state \<Rightarrow> addr result" where
  "dynamic_cast cs T U p s =
     (if T = U \<or> p = nullptr then Ok p s
      else case find (sub_object cs U p) (heap s) of
             Some (a, Obj_cell ob) \<Rightarrow>
               (case base_disp cs (dyn ob) T of
                  Some k \<Rightarrow> Ok (a + of_nat k) s
                | None \<Rightarrow> Ok nullptr s)
           | _ \<Rightarrow> Fail Undefined_Behaviour s)"

section \<open>The operation dispatcher\<close>

text \<open>\<^verbatim>\<open>new T(x)\<close> and \<^verbatim>\<open>new (placement) T(x)\<close>, for the members \<open>ms\<close> the constructor produces.\<close>

definition new_obj :: "classes \<Rightarrow> ty \<Rightarrow> int list \<Rightarrow> state \<Rightarrow> addr result" where
  "new_obj cs T ms =
     seq (operator_new cs (max 1 (sizeof cs T))) (\<lambda>a.
     seq (store a (Obj_cell \<lparr>dyn = T, members = ms\<rparr>)) (\<lambda>_. ret a))"

definition placement_new :: "ty \<Rightarrow> int list \<Rightarrow> addr \<Rightarrow> state \<Rightarrow> addr result" where
  "placement_new T ms placement =
     seq (store placement (Obj_cell \<lparr>dyn = T, members = ms\<rparr>)) (\<lambda>_. ret placement)"

text \<open>\<^verbatim>\<open>placement_copy<T>(data, placement)\<close> and \<^verbatim>\<open>placement_move<T>(data, placement)\<close>.\<close>

definition placement_copy :: "classes \<Rightarrow> ty \<Rightarrow> int list \<Rightarrow> addr \<Rightarrow> state \<Rightarrow> addr result" where
  "placement_copy cs T other placement = placement_new T (copy_construct cs T other) placement"

definition placement_move :: "classes \<Rightarrow> ty \<Rightarrow> int list \<Rightarrow> addr \<Rightarrow> state \<Rightarrow> addr result" where
  "placement_move cs T other placement = placement_new T (move_construct cs T other) placement"

text \<open>
  \<^verbatim>\<open>clone_impl<T, IsClonable>::clone(data, placement)\<close>: the \<^verbatim>\<open>true\<close> specialisation copies to
  the heap or into the placement, the \<^verbatim>\<open>false\<close> one throws \<^verbatim>\<open>std::logic_error\<close>.
\<close>

definition clone_impl :: "classes \<Rightarrow> ty \<Rightarrow> bool \<Rightarrow> addr \<Rightarrow> addr \<Rightarrow> state \<Rightarrow> addr result" where
  "clone_impl cs T IsClonable value placement =
     (if IsClonable then
        seq (load_obj value) (\<lambda>ob.
          if placement = nullptr then new_obj cs T (copy_construct cs T (members ob))
          else placement_copy cs T (members ob) placement)
      else throw Logic_Error)"

text \<open>
  \<^verbatim>\<open>delete data\<close> (nothing on a null pointer) and \<^verbatim>\<open>data->~T()\<close>. Either ends the life of
  the value at that address; \<^verbatim>\<open>delete\<close> also gives its storage back to the allocator, the
  destructor call leaves the storage where it is.
\<close>

definition delete_obj :: "addr \<Rightarrow> state \<Rightarrow> unit result" where
  "delete_obj value =
     (if value = nullptr then ret ()
      else seq (load_obj value) (\<lambda>_. release value))"

definition destroy_obj :: "addr \<Rightarrow> state \<Rightarrow> unit result" where
  "destroy_obj value = seq (load_obj value) (\<lambda>ob. store value (Raw_cell (dyn ob)))"

text \<open>\<^verbatim>\<open>op<T>(o, value, placement)\<close>; the \<^verbatim>\<open>intptr_t\<close> it returns is a 64-bit word.\<close>

definition op :: "classes \<Rightarrow> ty \<Rightarrow> operation \<Rightarrow> addr \<Rightarrow> addr \<Rightarrow> state \<Rightarrow> 64 word result" where
  "op cs T o' value placement =
     (case o' of
        CLONE \<Rightarrow> clone_impl cs T (copy_constructible cs T) value placement
      | DELETE \<Rightarrow> seq (delete_obj value) (\<lambda>_. ret 0)
      | DESTRUCT \<Rightarrow> seq (destroy_obj value) (\<lambda>_. ret 0)
      | SIZE \<Rightarrow> ret (of_nat (sizeof cs T))
      | TYPE_OP \<Rightarrow> ret (type_name cs T))"

text \<open>
  The five wrappers around a dispatcher. The header's \<^verbatim>\<open>delete_\<close>, \<^verbatim>\<open>size\<close> and \<^verbatim>\<open>type\<close> are
  \<open>delete_op\<close>, \<open>size_op\<close> and \<open>type_op\<close> here.
\<close>

definition clone :: "classes \<Rightarrow> ty \<Rightarrow> addr \<Rightarrow> addr \<Rightarrow> state \<Rightarrow> addr result" where
  "clone cs op_p value placement = op cs op_p CLONE value placement"

definition delete_op :: "classes \<Rightarrow> ty \<Rightarrow> addr \<Rightarrow> state \<Rightarrow> unit result" where
  "delete_op cs op_p value = seq (op cs op_p DELETE value nullptr) (\<lambda>_. ret ())"

definition destruct :: "classes \<Rightarrow> ty \<Rightarrow> addr \<Rightarrow> state \<Rightarrow> unit result" where
  "destruct cs op_p value = seq (op cs op_p DESTRUCT value nullptr) (\<lambda>_. ret ())"

definition size_op :: "classes \<Rightarrow> ty \<Rightarrow> state \<Rightarrow> 64 word result" where
  "size_op cs op_p = op cs op_p SIZE nullptr nullptr"

definition type_op :: "classes \<Rightarrow> ty \<Rightarrow> state \<Rightarrow> addr result" where
  "type_op cs op_p = op cs op_p TYPE_OP nullptr nullptr"

section \<open>The observer handle \<^verbatim>\<open>ptr<T>\<close>\<close>

text \<open>
  \<^verbatim>\<open>get_descriptor\<close> and \<^verbatim>\<open>exchange_descriptor\<close> read and swap the member \<open>descriptor\<close> of
  a live handle; a handle that is not live is a dangling reference. Here they are what
  they do to the member; the mutex \<open>m\<close> they hold meanwhile is part of the step-by-step
  account of the assignment further down.
\<close>

definition lookup_handle :: "state \<Rightarrow> hid \<Rightarrow> descriptor_t option" where
  "lookup_handle s h = (if h < length (handles s) then handles s ! h else None)"

definition get_descriptor :: "hid \<Rightarrow> state \<Rightarrow> descriptor_t result" where
  "get_descriptor h s =
     (case lookup_handle s h of Some d \<Rightarrow> Ok d s | None \<Rightarrow> Fail Undefined_Behaviour s)"

definition set_descriptor :: "hid \<Rightarrow> descriptor_t \<Rightarrow> state \<Rightarrow> unit result" where
  "set_descriptor h v s =
     (case lookup_handle s h of
        Some d \<Rightarrow> Ok () (s\<lparr>handles := (handles s)[h := Some v]\<rparr>)
      | None \<Rightarrow> Fail Undefined_Behaviour s)"

definition exchange_descriptor :: "hid \<Rightarrow> descriptor_t \<Rightarrow> state \<Rightarrow> descriptor_t result" where
  "exchange_descriptor h v =
     seq (get_descriptor h) (\<lambda>saved.
     seq (set_descriptor h v) (\<lambda>_. ret saved))"

text \<open>
  A constructor of \<^verbatim>\<open>ptr\<close> runs on a new handle, whose member \<open>descriptor\<close> it
  initialises; the destructor's end takes the handle away.
\<close>

definition new_handle :: "descriptor_t \<Rightarrow> state \<Rightarrow> hid result" where
  "new_handle d s = Ok (length (handles s)) (s\<lparr>handles := handles s @ [Some d]\<rparr>)"

definition end_handle :: "hid \<Rightarrow> state \<Rightarrow> unit result" where
  "end_handle h s =
     (case lookup_handle s h of
        Some d \<Rightarrow> Ok () (s\<lparr>handles := (handles s)[h := None]\<rparr>)
      | None \<Rightarrow> Fail Undefined_Behaviour s)"

text \<open>\<^verbatim>\<open>ptr(ptr const & other)\<close>\<close>

definition ptr_copy :: "hid \<Rightarrow> state \<Rightarrow> hid result" where
  "ptr_copy other =
     seq (get_descriptor other) (\<lambda>d.
     seq (new_handle d) (\<lambda>this.
     seq (increment (block_ptr d)) (\<lambda>_. ret this)))"

text \<open>\<^verbatim>\<open>~ptr()\<close>\<close>

definition ptr_dtor :: "hid \<Rightarrow> state \<Rightarrow> unit result" where
  "ptr_dtor this =
     seq (get_descriptor this) (\<lambda>d.
     seq (decrement (block_ptr d)) (\<lambda>_. end_handle this))"

text \<open>
  \<^verbatim>\<open>ptr& operator =(ptr other)\<close>. The parameter is passed by value: it is a copy of the
  argument, made before the body and destroyed after it.
\<close>

definition ptr_assign_body :: "hid \<Rightarrow> hid \<Rightarrow> state \<Rightarrow> unit result" where
  "ptr_assign_body this other =
     seq (get_descriptor other) (\<lambda>new_descriptor.
     seq (increment (block_ptr new_descriptor)) (\<lambda>_.
     seq (exchange_descriptor this new_descriptor) (\<lambda>old_descriptor.
     decrement (block_ptr old_descriptor))))"

definition ptr_assign :: "hid \<Rightarrow> hid \<Rightarrow> state \<Rightarrow> unit result" where
  "ptr_assign this arg =
     seq (ptr_copy arg) (\<lambda>other.
     seq (ptr_assign_body this other) (\<lambda>_. ptr_dtor other))"

text \<open>
  \<^verbatim>\<open>descriptor.upcast_offset += n\<close> and \<^verbatim>\<open>-= n\<close> on the handle under construction.
\<close>

definition add_offset :: "hid \<Rightarrow> 64 word \<Rightarrow> state \<Rightarrow> unit result" where
  "add_offset this n =
     seq (get_descriptor this) (\<lambda>d.
     set_descriptor this (d\<lparr>upcast_offset := upcast_offset d + n\<rparr>))"

definition sub_offset :: "hid \<Rightarrow> 64 word \<Rightarrow> state \<Rightarrow> unit result" where
  "sub_offset this n =
     seq (get_descriptor this) (\<lambda>d.
     set_descriptor this (d\<lparr>upcast_offset := upcast_offset d - n\<rparr>))"

text \<open>\<^verbatim>\<open>ptr(ptr<U> const & other)\<close> for \<open>U\<close> inheriting \<open>T\<close> (widening).\<close>

definition ptr_widen :: "classes \<Rightarrow> ty \<Rightarrow> ty \<Rightarrow> hid \<Rightarrow> state \<Rightarrow> hid result" where
  "ptr_widen cs T U other =
     seq (get_descriptor other) (\<lambda>d.
     seq (new_handle d) (\<lambda>this.
     seq (increment (block_ptr d)) (\<lambda>_.
     seq (add_offset this (compute_upcast_offset cs T U)) (\<lambda>_. ret this))))"

text \<open>\<^verbatim>\<open>ptr& operator =(ptr<U> other)\<close> for \<open>U\<close> inheriting \<open>T\<close>; \<open>arg\<close> is a \<^verbatim>\<open>ptr<U>\<close>.\<close>

definition ptr_assign_widen_body :: "classes \<Rightarrow> ty \<Rightarrow> ty \<Rightarrow> hid \<Rightarrow> hid \<Rightarrow> state \<Rightarrow> unit result" where
  "ptr_assign_widen_body cs T U this other =
     seq (get_descriptor other) (\<lambda>d.
     seq (increment (block_ptr d)) (\<lambda>_.
     seq (exchange_descriptor this
            (d\<lparr>upcast_offset := upcast_offset d + compute_upcast_offset cs T U\<rparr>)) (\<lambda>old_descriptor.
     decrement (block_ptr old_descriptor))))"

definition ptr_assign_widen :: "classes \<Rightarrow> ty \<Rightarrow> ty \<Rightarrow> hid \<Rightarrow> hid \<Rightarrow> state \<Rightarrow> unit result" where
  "ptr_assign_widen cs T U this arg =
     seq (ptr_copy arg) (\<lambda>other.
     seq (ptr_assign_widen_body cs T U this other) (\<lambda>_. ptr_dtor other))"

text \<open>\<^verbatim>\<open>T* operator ->() const\<close>\<close>

definition ptr_arrow :: "hid \<Rightarrow> state \<Rightarrow> addr result" where
  "ptr_arrow this =
     seq (get_descriptor this) (\<lambda>d.
     seq (load_block (block_ptr d)) (\<lambda>blk.
     ret (data blk + upcast_offset d)))"

text \<open>\<^verbatim>\<open>explicit ptr(ptr<U> const & other)\<close> for \<open>T\<close> inheriting \<open>U\<close> (narrowing).\<close>

definition ptr_narrow :: "classes \<Rightarrow> ty \<Rightarrow> ty \<Rightarrow> hid \<Rightarrow> state \<Rightarrow> hid result" where
  "ptr_narrow cs T U other =
     seq (ptr_arrow other) (\<lambda>p.
     seq (dynamic_cast cs U U p) (\<lambda>result.
     seq (get_descriptor other) (\<lambda>d.
     seq (new_handle d) (\<lambda>this.
     seq (increment (block_ptr d)) (\<lambda>_.
     seq (sub_offset this (compute_upcast_offset cs T U)) (\<lambda>_. ret this))))))"

text \<open>\<^verbatim>\<open>explicit ptr(descriptor_t const & d)\<close> and \<^verbatim>\<open>ptr(block * b, size_t upcast_offset, op_sig op_ptr)\<close>\<close>

definition ptr_of_descriptor :: "descriptor_t \<Rightarrow> state \<Rightarrow> hid result" where
  "ptr_of_descriptor d =
     seq (new_handle d) (\<lambda>this.
     seq (increment (block_ptr d)) (\<lambda>_. ret this))"

definition ptr_of_block :: "addr \<Rightarrow> 64 word \<Rightarrow> ty \<Rightarrow> state \<Rightarrow> hid result" where
  "ptr_of_block b off op_p =
     seq (new_handle \<lparr>block_ptr = b, upcast_offset = off, op_ptr = op_p\<rparr>) (\<lambda>this.
     seq (increment b) (\<lambda>_. ret this))"

text \<open>\<^verbatim>\<open>descriptor_t clone(size_t upcast_offset, void * placement) const\<close>\<close>

definition ptr_clone :: "classes \<Rightarrow> hid \<Rightarrow> 64 word \<Rightarrow> addr \<Rightarrow> state \<Rightarrow> descriptor_t result" where
  "ptr_clone cs this off placement =
     seq (get_descriptor this) (\<lambda>d.
     seq (if placement = nullptr then seq (type_op cs (op_ptr d)) (\<lambda>uName. ret ()) else ret ()) (\<lambda>_.
     seq (load_block (block_ptr d)) (\<lambda>blk.
     seq (clone cs (op_ptr d) (data blk) placement) (\<lambda>cloned.
     seq (new_block cs cloned) (\<lambda>b.
     ret \<lparr>block_ptr = b, upcast_offset = upcast_offset d + off, op_ptr = op_ptr d\<rparr>)))))"

text \<open>\<^verbatim>\<open>size_t get_size_of_data() const\<close>\<close>

definition get_size_of_data :: "classes \<Rightarrow> hid \<Rightarrow> state \<Rightarrow> 64 word result" where
  "get_size_of_data cs this =
     seq (get_descriptor this) (\<lambda>d. size_op cs (op_ptr d))"

section \<open>An assignment, one access to shared memory at a time\<close>

text \<open>
  The two \<^verbatim>\<open>operator =\<close> of \<^verbatim>\<open>ptr\<close> as a thread executes them, so that the states between two
  statements can be spoken of. \<^verbatim>\<open>get_descriptor\<close> and \<^verbatim>\<open>exchange_descriptor\<close> begin with
  \<^verbatim>\<open>std::unique_lock<std::mutex> lock(m);\<close> and release the mutex when they return. A thread
  is the place it has reached in the body, with the local it holds there, and the mutexes
  it owns. Locking a mutex the thread already owns, the mutex of a handle that is not live,
  or unlocking one it does not own, is undefined behaviour.
\<close>

datatype assign_pc =
    Lock_other
  | Read_other
  | Unlock_other descriptor_t
  | Increment_new descriptor_t
  | Lock_this descriptor_t
  | Swap descriptor_t
  | Unlock_this descriptor_t
  | Decrement_old descriptor_t
  | Returned

record thread =
  pc :: assign_pc
  owned :: "hid list"

definition lock :: "hid \<Rightarrow> thread \<Rightarrow> state \<Rightarrow> thread result" where
  "lock h th s =
     (case lookup_handle s h of
        None \<Rightarrow> Fail Undefined_Behaviour s
      | Some d \<Rightarrow> if h \<in> set (owned th) then Fail Undefined_Behaviour s
                  else Ok (th\<lparr>owned := h # owned th\<rparr>) s)"

definition unlock :: "hid \<Rightarrow> thread \<Rightarrow> state \<Rightarrow> thread result" where
  "unlock h th s =
     (if h \<in> set (owned th) then Ok (th\<lparr>owned := remove1 h (owned th)\<rparr>) s
      else Fail Undefined_Behaviour s)"

text \<open>
  The widening operator has one statement more than the other, on its local alone:
  \<^verbatim>\<open>new_descriptor.upcast_offset += compute_upcast_offset<T, U>()\<close>, between the increment
  and the exchange. \<open>conv\<close> is \<open>None\<close> for the operator taking a \<^verbatim>\<open>ptr\<close> and the
  offset to add for the one taking a \<^verbatim>\<open>ptr<U>\<close>.
\<close>

definition adjusted :: "64 word option \<Rightarrow> descriptor_t \<Rightarrow> descriptor_t" where
  "adjusted conv d =
     (case conv of None \<Rightarrow> d | Some n \<Rightarrow> d\<lparr>upcast_offset := upcast_offset d + n\<rparr>)"

text \<open>
  One step: the lock, the read and the unlock of \<^verbatim>\<open>other.get_descriptor()\<close>, the
  \<^verbatim>\<open>increment()\<close> of the new block, the lock, the swap and the unlock of
  \<^verbatim>\<open>exchange_descriptor(new_descriptor)\<close>, the \<^verbatim>\<open>decrement()\<close> of the old block.
\<close>

definition assign_step :: "64 word option \<Rightarrow> hid \<Rightarrow> hid \<Rightarrow> thread \<Rightarrow> state \<Rightarrow> thread result" where
  "assign_step conv this other th =
     (case pc th of
        Lock_other \<Rightarrow> seq (lock other th) (\<lambda>th. ret (th\<lparr>pc := Read_other\<rparr>))
      | Read_other \<Rightarrow> seq (get_descriptor other) (\<lambda>d. ret (th\<lparr>pc := Unlock_other d\<rparr>))
      | Unlock_other d \<Rightarrow> seq (unlock other th) (\<lambda>th. ret (th\<lparr>pc := Increment_new d\<rparr>))
      | Increment_new d \<Rightarrow>
          seq (increment (block_ptr d)) (\<lambda>_. ret (th\<lparr>pc := Lock_this (adjusted conv d)\<rparr>))
      | Lock_this d \<Rightarrow> seq (lock this th) (\<lambda>th. ret (th\<lparr>pc := Swap d\<rparr>))
      | Swap d \<Rightarrow> seq (exchange_descriptor this d) (\<lambda>saved. ret (th\<lparr>pc := Unlock_this saved\<rparr>))
      | Unlock_this old_descriptor \<Rightarrow>
          seq (unlock this th) (\<lambda>th. ret (th\<lparr>pc := Decrement_old old_descriptor\<rparr>))
      | Decrement_old old_descriptor \<Rightarrow>
          seq (decrement (block_ptr old_descriptor)) (\<lambda>_. ret (th\<lparr>pc := Returned\<rparr>))
      | Returned \<Rightarrow> ret th)"

text \<open>The thread and the memory after \<open>n\<close> steps, and the body as its eight steps.\<close>

fun assign_run :: "nat \<Rightarrow> 64 word option \<Rightarrow> hid \<Rightarrow> hid \<Rightarrow> thread \<Rightarrow> state \<Rightarrow> thread result" where
  "assign_run 0 conv this other th = ret th"
| "assign_run (Suc n) conv this other th =
     seq (assign_step conv this other th) (assign_run n conv this other)"

definition assign_entry :: thread where
  "assign_entry = \<lparr>pc = Lock_other, owned = []\<rparr>"

definition assign_steps :: "64 word option \<Rightarrow> hid \<Rightarrow> hid \<Rightarrow> state \<Rightarrow> unit result" where
  "assign_steps conv this other =
     seq (assign_run 8 conv this other assign_entry) (\<lambda>_. ret ())"

section \<open>The value container \<^verbatim>\<open>val<T, SmallStorageSize>\<close>\<close>

text \<open>
  A container is its two members: the inline buffer \<^verbatim>\<open>small_storage\<close>, of which only the
  address matters, and the handle \<^verbatim>\<open>data\<close> (here \<open>val_data\<close>, \<open>data\<close> being the field of
  the block). The template arguments \<open>T\<close> and \<open>SmallStorageSize\<close> are arguments of the
  functions; a constructor is told where the buffer of the new container lies.
\<close>

record val =
  small_storage :: addr
  val_data :: hid

text \<open>
  \<^verbatim>\<open>void * emplacement_ptr(size_t dataSize)\<close>: an unconditional \<^verbatim>\<open>return nullptr;\<close> stands
  before the comparison with \<open>SmallStorageSize\<close>.
\<close>

definition emplacement_ptr :: "nat \<Rightarrow> addr \<Rightarrow> nat \<Rightarrow> addr" where
  "emplacement_ptr SmallStorageSize small_storage_addr dataSize =
     (if True then nullptr
      else if dataSize \<le> SmallStorageSize then small_storage_addr
      else nullptr)"

text \<open>\<^verbatim>\<open>construct(U const & other)\<close> and \<^verbatim>\<open>construct(U && other)\<close>\<close>

definition construct_copy :: "classes \<Rightarrow> nat \<Rightarrow> addr \<Rightarrow> ty \<Rightarrow> int list \<Rightarrow> state \<Rightarrow> addr result" where
  "construct_copy cs SmallStorageSize ss U other =
     (let p = emplacement_ptr SmallStorageSize ss (sizeof cs U)
      in if p = nullptr then new_obj cs U (copy_construct cs U other)
         else placement_copy cs U other p)"

definition construct_move :: "classes \<Rightarrow> nat \<Rightarrow> addr \<Rightarrow> ty \<Rightarrow> int list \<Rightarrow> state \<Rightarrow> addr result" where
  "construct_move cs SmallStorageSize ss U other =
     (let p = emplacement_ptr SmallStorageSize ss (sizeof cs U)
      in if p = nullptr then new_obj cs U (move_construct cs U other)
         else placement_move cs U other p)"

text \<open>
  The call \<^verbatim>\<open>construct(std::forward<U>(v))\<close> on an rvalue: the overload taking \<^verbatim>\<open>U &&\<close> is
  there for a move-constructible \<open>U\<close> only; without it the rvalue binds to \<^verbatim>\<open>U const &\<close>.
\<close>

definition construct_rvalue :: "classes \<Rightarrow> nat \<Rightarrow> addr \<Rightarrow> ty \<Rightarrow> int list \<Rightarrow> state \<Rightarrow> addr result" where
  "construct_rvalue cs SmallStorageSize ss U other =
     (if move_constructible cs U then construct_move cs SmallStorageSize ss U other
      else construct_copy cs SmallStorageSize ss U other)"

text \<open>The private \<^verbatim>\<open>explicit val(U * v)\<close> and the public \<^verbatim>\<open>explicit val(T * v)\<close>\<close>

definition val_of_ptr :: "classes \<Rightarrow> ty \<Rightarrow> ty \<Rightarrow> addr \<Rightarrow> addr \<Rightarrow> state \<Rightarrow> val result" where
  "val_of_ptr cs T U ss v =
     seq (new_block cs v) (\<lambda>b.
     seq (ptr_of_block b (compute_upcast_offset cs T U) U) (\<lambda>h.
     ret \<lparr>small_storage = ss, val_data = h\<rparr>))"

definition val_adopt :: "classes \<Rightarrow> ty \<Rightarrow> addr \<Rightarrow> addr \<Rightarrow> state \<Rightarrow> val result" where
  "val_adopt cs T ss v =
     seq (new_block cs v) (\<lambda>b.
     seq (ptr_of_block b 0 T) (\<lambda>h.
     ret \<lparr>small_storage = ss, val_data = h\<rparr>))"

text \<open>\<^verbatim>\<open>val(T const & v)\<close> and \<^verbatim>\<open>val(T && v)\<close>\<close>

definition val_of_value :: "classes \<Rightarrow> ty \<Rightarrow> nat \<Rightarrow> addr \<Rightarrow> int list \<Rightarrow> state \<Rightarrow> val result" where
  "val_of_value cs T SmallStorageSize ss v =
     seq (construct_copy cs SmallStorageSize ss T v) (\<lambda>p. val_adopt cs T ss p)"

definition val_of_rvalue :: "classes \<Rightarrow> ty \<Rightarrow> nat \<Rightarrow> addr \<Rightarrow> int list \<Rightarrow> state \<Rightarrow> val result" where
  "val_of_rvalue cs T SmallStorageSize ss v =
     seq (construct_rvalue cs SmallStorageSize ss T v) (\<lambda>p. val_adopt cs T ss p)"

text \<open>\<^verbatim>\<open>val(U const & v)\<close> and \<^verbatim>\<open>val(U && v)\<close> for \<open>U\<close> inheriting \<open>T\<close>\<close>

definition val_of_derived :: "classes \<Rightarrow> ty \<Rightarrow> ty \<Rightarrow> nat \<Rightarrow> addr \<Rightarrow> int list \<Rightarrow> state \<Rightarrow> val result" where
  "val_of_derived cs T U SmallStorageSize ss v =
     seq (construct_copy cs SmallStorageSize ss U v) (\<lambda>p. val_of_ptr cs T U ss p)"

definition val_of_derived_rvalue :: "classes \<Rightarrow> ty \<Rightarrow> ty \<Rightarrow> nat \<Rightarrow> addr \<Rightarrow> int list \<Rightarrow> state \<Rightarrow> val result" where
  "val_of_derived_rvalue cs T U SmallStorageSize ss v =
     seq (construct_rvalue cs SmallStorageSize ss U v) (\<lambda>p. val_of_ptr cs T U ss p)"

text \<open>\<^verbatim>\<open>val(val const & other)\<close>\<close>

definition val_copy :: "classes \<Rightarrow> nat \<Rightarrow> addr \<Rightarrow> val \<Rightarrow> state \<Rightarrow> val result" where
  "val_copy cs SmallStorageSize ss other =
     seq (ptr_clone cs (val_data other) 0 (emplacement_ptr SmallStorageSize ss SmallStorageSize)) (\<lambda>d.
     seq (ptr_of_descriptor d) (\<lambda>h.
     ret \<lparr>small_storage = ss, val_data = h\<rparr>))"

text \<open>
  \<^verbatim>\<open>val(val<U, SmallStorageSizeU> const & other)\<close>, for \<open>U\<close> inheriting \<open>T\<close> and for \<open>T\<close>
  inheriting \<open>U\<close>: the two constructors have the same initialisers.
\<close>

definition val_convert :: "classes \<Rightarrow> ty \<Rightarrow> ty \<Rightarrow> nat \<Rightarrow> addr \<Rightarrow> val \<Rightarrow> state \<Rightarrow> val result" where
  "val_convert cs T U SmallStorageSize ss other =
     seq (get_size_of_data cs (val_data other)) (\<lambda>n.
     seq (ptr_clone cs (val_data other) (compute_upcast_offset cs T U)
            (emplacement_ptr SmallStorageSize ss (unat n))) (\<lambda>d.
     seq (ptr_of_descriptor d) (\<lambda>h.
     ret \<lparr>small_storage = ss, val_data = h\<rparr>)))"

text \<open>\<^verbatim>\<open>b.data.exchange(v)\<close> and the read of \<^verbatim>\<open>b.count\<close>\<close>

definition exchange_data :: "addr \<Rightarrow> addr \<Rightarrow> state \<Rightarrow> addr result" where
  "exchange_data b v =
     seq (load_block b) (\<lambda>blk.
     seq (store b (Block_cell (blk\<lparr>data := v\<rparr>))) (\<lambda>_. ret (data blk)))"

definition load_count :: "addr \<Rightarrow> state \<Rightarrow> int result" where
  "load_count b = seq (load_block b) (\<lambda>blk. ret (count blk))"

text \<open>
  \<^verbatim>\<open>~val() noexcept\<close>: the body, then the destructor of the member \<^verbatim>\<open>data\<close>.
\<close>

definition val_dtor :: "classes \<Rightarrow> val \<Rightarrow> state \<Rightarrow> unit result" where
  "val_dtor cs this =
     seq (get_descriptor (val_data this)) (\<lambda>d.
     seq (exchange_data (block_ptr d) nullptr) (\<lambda>buffer.
     seq (load_count (block_ptr d)) (\<lambda>c.
       if c \<noteq> 1 then throw Abort
       else
         seq (if buffer = small_storage this then destruct cs (op_ptr d) buffer
              else delete_op cs (op_ptr d) buffer) (\<lambda>_.
         ptr_dtor (val_data this)))))"

text \<open>\<^verbatim>\<open>T* operator ->()\<close> of the container\<close>

definition val_arrow :: "val \<Rightarrow> state \<Rightarrow> addr result" where
  "val_arrow this = ptr_arrow (val_data this)"

text \<open>\<^verbatim>\<open>std::unique_ptr<T> clone() const\<close>\<close>

definition val_clone :: "classes \<Rightarrow> val \<Rightarrow> state \<Rightarrow> addr result" where
  "val_clone cs this =
     seq (ptr_clone cs (val_data this) 0 nullptr) (\<lambda>d.
     seq (load_block (block_ptr d)) (\<lambda>blk.
     ret (data blk + upcast_offset d)))"

section \<open>Handles made from containers\<close>

text \<open>\<^verbatim>\<open>ptr(val<U, SmallStorageSizeU> const & other)\<close> for \<open>U\<close> inheriting \<open>T\<close> (widening).\<close>

definition ptr_of_val :: "classes \<Rightarrow> ty \<Rightarrow> ty \<Rightarrow> val \<Rightarrow> state \<Rightarrow> hid result" where
  "ptr_of_val cs T U other =
     seq (get_descriptor (val_data other)) (\<lambda>d.
     seq (new_handle d) (\<lambda>this.
     seq (increment (block_ptr d)) (\<lambda>_.
     seq (add_offset this (compute_upcast_offset cs T U)) (\<lambda>_. ret this))))"

text \<open>
  \<^verbatim>\<open>explicit ptr(val<U, SmallStorageSizeU> const & other)\<close> for \<open>T\<close> properly inheriting \<open>U\<close>
  (narrowing). Its \<^verbatim>\<open>throw;\<close> has no exception to rethrow and calls \<^verbatim>\<open>std::terminate\<close>.
\<close>

definition ptr_narrow_val :: "classes \<Rightarrow> ty \<Rightarrow> ty \<Rightarrow> val \<Rightarrow> state \<Rightarrow> hid result" where
  "ptr_narrow_val cs T U other =
     seq (val_arrow other) (\<lambda>p.
     seq (dynamic_cast cs T U p) (\<lambda>result.
       if result = nullptr then throw Terminate
       else
         seq (get_descriptor (val_data other)) (\<lambda>d.
         seq (new_handle d) (\<lambda>this.
         seq (increment (block_ptr d)) (\<lambda>_.
         seq (sub_offset this (compute_upcast_offset cs T U)) (\<lambda>_. ret this))))))"

section \<open>What client code does through a container\<close>

text \<open>
  Reading the stored value of a container, and assigning to its data members through
  \<^verbatim>\<open>operator*\<close> or \<^verbatim>\<open>operator->\<close>: both reach the value the block of the container points
  to.
\<close>

definition val_read :: "val \<Rightarrow> state \<Rightarrow> obj result" where
  "val_read this =
     seq (get_descriptor (val_data this)) (\<lambda>d.
     seq (load_block (block_ptr d)) (\<lambda>blk.
     load_obj (data blk)))"

definition val_write :: "val \<Rightarrow> int list \<Rightarrow> state \<Rightarrow> unit result" where
  "val_write this ms =
     seq (get_descriptor (val_data this)) (\<lambda>d.
     seq (load_block (block_ptr d)) (\<lambda>blk.
     seq (load_obj (data blk)) (\<lambda>ob.
     store (data blk) (Obj_cell (ob\<lparr>members := ms\<rparr>)))))"

section \<open>Counting the handles of a block\<close>

text \<open>
  The live handles whose descriptor names block \<open>b\<close>, the block stored at an address, and
  the state of affairs between operations: every live handle names a live block, and the
  counter of every live block is the number of live handles that name it.
\<close>

definition points_to :: "addr \<Rightarrow> descriptor_t option \<Rightarrow> bool" where
  "points_to b x = (case x of Some d \<Rightarrow> block_ptr d = b | None \<Rightarrow> False)"

definition refs :: "descriptor_t option list \<Rightarrow> addr \<Rightarrow> nat" where
  "refs hs b = length (filter (points_to b) hs)"

definition block_at :: "(addr \<times> cell) list \<Rightarrow> addr \<Rightarrow> block option" where
  "block_at hp b = (case map_of hp b of Some (Block_cell blk) \<Rightarrow> Some blk | _ \<Rightarrow> None)"

text \<open>The heap after \<^verbatim>\<open>decrement()\<close> on the block \<open>blk\<close> at \<open>b\<close>.\<close>

definition drop_ref :: "addr \<Rightarrow> block \<Rightarrow> (addr \<times> cell) list \<Rightarrow> (addr \<times> cell) list" where
  "drop_ref b blk hp =
     (if count blk = 1 then AList.delete b hp
      else AList.update b (Block_cell (blk\<lparr>count := count blk - 1\<rparr>)) hp)"

definition no_dangling :: "state \<Rightarrow> bool" where
  "no_dangling s =
     list_all (\<lambda>x. case x of Some d \<Rightarrow> block_at (heap s) (block_ptr d) \<noteq> None | None \<Rightarrow> True)
       (handles s)"

definition counted :: "state \<Rightarrow> bool" where
  "counted s =
     (no_dangling s
      \<and> list_all (\<lambda>b. case block_at (heap s) b of
                         Some blk \<Rightarrow> count blk = int (refs (handles s) b)
                       | None \<Rightarrow> True)
           (map fst (heap s)))"

text \<open>The counter of the block at \<open>b\<close>, when there is one.\<close>

definition counter :: "state \<Rightarrow> addr \<Rightarrow> int option" where
  "counter s b = map_option count (block_at (heap s) b)"

text \<open>
  The external observers of a container on block \<open>b\<close>: the live handles that name \<open>b\<close>,
  the container's own member \<^verbatim>\<open>data\<close> left out.
\<close>

definition observers :: "state \<Rightarrow> val \<Rightarrow> addr \<Rightarrow> nat" where
  "observers s v b = refs ((handles s)[val_data v := None]) b"

text \<open>
  The operations client code has on observer handles: the constructors from a handle and
  from a container, the two assignments and the destructor. A constructor's new handle
  is the next position in the list of handles.
\<close>

datatype handle_op =
    Copy hid
  | Widen ty ty hid
  | Narrow ty ty hid
  | Of_val ty ty val
  | Narrow_val ty ty val
  | Assign hid hid
  | Assign_widen ty ty hid hid
  | Destroy hid

definition discard :: "(state \<Rightarrow> 'a result) \<Rightarrow> state \<Rightarrow> unit result" where
  "discard m = seq m (\<lambda>_. ret ())"

fun handle_step :: "classes \<Rightarrow> handle_op \<Rightarrow> state \<Rightarrow> unit result" where
  "handle_step cs (Copy other) = discard (ptr_copy other)"
| "handle_step cs (Widen T U other) = discard (ptr_widen cs T U other)"
| "handle_step cs (Narrow T U other) = discard (ptr_narrow cs T U other)"
| "handle_step cs (Of_val T U v) = discard (ptr_of_val cs T U v)"
| "handle_step cs (Narrow_val T U v) = discard (ptr_narrow_val cs T U v)"
| "handle_step cs (Assign this arg) = ptr_assign this arg"
| "handle_step cs (Assign_widen T U this arg) = ptr_assign_widen cs T U this arg"
| "handle_step cs (Destroy this) = ptr_dtor this"

fun run_ops :: "classes \<Rightarrow> handle_op list \<Rightarrow> state \<Rightarrow> unit result" where
  "run_ops cs [] = ret ()"
| "run_ops cs (x # xs) = seq (handle_step cs x) (\<lambda>_. run_ops cs xs)"

text \<open>The handles an operation assigns to or destroys.\<close>

fun touched :: "handle_op \<Rightarrow> hid list" where
  "touched (Assign this arg) = [this]"
| "touched (Assign_widen T U this arg) = [this]"
| "touched (Destroy this) = [this]"
| "touched x = []"

section \<open>An example program\<close>

text \<open>
  \<^verbatim>\<open>Circle\<close> and \<^verbatim>\<open>Square\<close> derive from \<^verbatim>\<open>Shape\<close>; \<^verbatim>\<open>Token\<close> can be moved but not copied;
  \<^verbatim>\<open>Named_circle\<close> has a first base of 16 bytes before its \<^verbatim>\<open>Shape\<close>.
\<close>

definition Shape :: ty where "Shape = 0"
definition Circle :: ty where "Circle = 1"
definition Square :: ty where "Square = 2"
definition Token :: ty where "Token = 3"
definition Named_circle :: ty where "Named_circle = 4"

definition shapes :: classes where
  "shapes =
     \<lparr>base_disp = (\<lambda>U T. if U = T then Some 0
                          else if T = Shape \<and> (U = Circle \<or> U = Square) then Some 0
                          else if T = Shape \<and> U = Named_circle then Some 16
                          else None),
      sizeof = (\<lambda>t. if t = Shape \<or> t = Token then 8 else if t = Named_circle then 32 else 16),
      copy_constructible = (\<lambda>t. t \<noteq> Token),
      move_constructible = (\<lambda>t. True),
      copy_construct = (\<lambda>t ms. ms),
      move_construct = (\<lambda>t ms. ms),
      type_name = (\<lambda>t. 0)\<rparr>"

definition empty_state :: state where
  "empty_state = \<lparr>heap = [], handles = []\<rparr>"

text \<open>The state after \<^verbatim>\<open>val<Shape> a(Circle{5});\<close> in the empty state, and \<open>a\<close>.\<close>

definition circle_state :: state where
  "circle_state =
     \<lparr>heap = [(1, Obj_cell \<lparr>dyn = Circle, members = [5]\<rparr>),
              (17, Block_cell \<lparr>count = 1, data = 1\<rparr>)],
      handles = [Some \<lparr>block_ptr = 17, upcast_offset = 0, op_ptr = Circle\<rparr>]\<rparr>"

definition circle_val :: val where
  "circle_val = \<lparr>small_storage = 4096, val_data = 0\<rparr>"

text \<open>The state after \<^verbatim>\<open>ptr<Shape> p(a);\<close> in \<open>circle_state\<close>.\<close>

definition watched_state :: state where
  "watched_state =
     \<lparr>heap = [(1, Obj_cell \<lparr>dyn = Circle, members = [5]\<rparr>),
              (17, Block_cell \<lparr>count = 2, data = 1\<rparr>)],
      handles = [Some \<lparr>block_ptr = 17, upcast_offset = 0, op_ptr = Circle\<rparr>,
                 Some \<lparr>block_ptr = 17, upcast_offset = 0, op_ptr = Circle\<rparr>]\<rparr>"

text \<open>A container like \<open>a\<close> whose inline buffer is where the value lies.\<close>

definition inline_val :: val where
  "inline_val = \<lparr>small_storage = 1, val_data = 0\<rparr>"

text \<open>The state after \<^verbatim>\<open>val<Token> t(Token{7});\<close> in the empty state, and \<open>t\<close>.\<close>

definition token_state :: state where
  "token_state =
     \<lparr>heap = [(1, Obj_cell \<lparr>dyn = Token, members = [7]\<rparr>),
              (9, Block_cell \<lparr>count = 1, data = 1\<rparr>)],
      handles = [Some \<lparr>block_ptr = 9, upcast_offset = 0, op_ptr = Token\<rparr>]\<rparr>"

definition token_val :: val where
  "token_val = \<lparr>small_storage = 4096, val_data = 0\<rparr>"

text \<open>
  The state after \<^verbatim>\<open>val<Shape> n(Named_circle{3});\<close> in the empty state, and \<open>n\<close>: the
  handle of \<open>n\<close> carries the 16 bytes between the object and its \<^verbatim>\<open>Shape\<close>.
\<close>

definition named_state :: state where
  "named_state =
     \<lparr>heap = [(1, Obj_cell \<lparr>dyn = Named_circle, members = [3]\<rparr>),
              (33, Block_cell \<lparr>count = 1, data = 1\<rparr>)],
      handles = [Some \<lparr>block_ptr = 33, upcast_offset = 16, op_ptr = Named_circle\<rparr>]\<rparr>"

definition named_val :: val where
  "named_val = \<lparr>small_storage = 4096, val_data = 0\<rparr>"

text \<open>
  The state after \<^verbatim>\<open>val<Named_circle> m(Named_circle{3}); ptr<Shape> q(m);\<close> in the empty
  state: the handle of \<open>m\<close>, then \<open>q\<close>.
\<close>

definition named_own_state :: state where
  "named_own_state =
     \<lparr>heap = [(1, Obj_cell \<lparr>dyn = Named_circle, members = [3]\<rparr>),
              (33, Block_cell \<lparr>count = 2, data = 1\<rparr>)],
      handles = [Some \<lparr>block_ptr = 33, upcast_offset = 0, op_ptr = Named_circle\<rparr>,
                 Some \<lparr>block_ptr = 33, upcast_offset = 16, op_ptr = Named_circle\<rparr>]\<rparr>"

text \<open>
  A state in which the handle of \<open>a\<close> and a second handle name the block of \<open>a\<close> while its
  counter is one: what the body of a self-assignment would meet if its parameter had not
  been counted.
\<close>

definition short_state :: state where
  "short_state =
     \<lparr>heap = [(1, Obj_cell \<lparr>dyn = Circle, members = [5]\<rparr>),
              (17, Block_cell \<lparr>count = 1, data = 1\<rparr>)],
      handles = [Some \<lparr>block_ptr = 17, upcast_offset = 0, op_ptr = Circle\<rparr>,
                 Some \<lparr>block_ptr = 17, upcast_offset = 0, op_ptr = Circle\<rparr>]\<rparr>"

section \<open>Sequencing, loads and the allocator\<close>

lemma seq_Ok_iff:
  "seq m f s = Ok y s'' \<longleftrightarrow> (\<exists>x s'. m s = Ok x s' \<and> f x s' = Ok y s'')"
  by (simp add: seq_def split: result.splits)

lemma seq_Ok: "m s = Ok x s' \<Longrightarrow> seq m f s = f x s'"
  by (simp add: seq_def)

lemma seq_Fail: "m s = Fail e s' \<Longrightarrow> seq m f s = Fail e s'"
  by (simp add: seq_def)

lemma load_block_Ok_iff:
  "load_block b s = Ok blk s' \<longleftrightarrow> s' = s \<and> map_of (heap s) b = Some (Block_cell blk)"
  by (auto simp: load_block_def split: option.splits cell.splits)

lemma load_obj_Ok_iff:
  "load_obj a s = Ok ob s' \<longleftrightarrow> s' = s \<and> map_of (heap s) a = Some (Obj_cell ob)"
  by (auto simp: load_obj_def split: option.splits cell.splits)

lemma get_descriptor_Ok_iff:
  "get_descriptor h s = Ok d s' \<longleftrightarrow> s' = s \<and> lookup_handle s h = Some d"
  by (auto simp: get_descriptor_def split: option.splits)

lemma heap_top_fold_ge:
  "m \<le> fold (\<lambda>(a, c) m. max m (unat a + cell_size cs c)) h m"
proof (induction h arbitrary: m)
  case Nil
  show ?case by simp
next
  case (Cons x h)
  obtain a c where x: "x = (a, c)" by (cases x)
  have "m \<le> max m (unat a + cell_size cs c)" by simp
  also have "\<dots> \<le> fold (\<lambda>(a, c) m. max m (unat a + cell_size cs c)) h (max m (unat a + cell_size cs c))"
    by (rule Cons.IH)
  finally show ?case by (simp add: x)
qed

lemma cell_size_pos: "0 < cell_size cs c"
  by (cases c) (simp_all add: cell_size_def max_def)

lemma heap_top_fold_above:
  "(a, c) \<in> set h \<Longrightarrow> unat a + cell_size cs c \<le> fold (\<lambda>(a, c) m. max m (unat a + cell_size cs c)) h m"
proof (induction h arbitrary: m)
  case Nil
  then show ?case by simp
next
  case (Cons x h)
  show ?case
  proof (cases "x = (a, c)")
    case True
    have "unat a + cell_size cs c \<le> max m (unat a + cell_size cs c)" by simp
    also have "\<dots> \<le> fold (\<lambda>(a, c) m. max m (unat a + cell_size cs c)) h (max m (unat a + cell_size cs c))"
      by (rule heap_top_fold_ge)
    finally show ?thesis by (simp add: True)
  next
    case False
    with Cons.prems have "(a, c) \<in> set h" by simp
    then show ?thesis using Cons.IH by (cases x) simp
  qed
qed

lemma heap_top_above: "(a, c) \<in> set h \<Longrightarrow> unat a < heap_top cs h"
  using heap_top_fold_above [of a c h cs 1] cell_size_pos [of cs c]
  by (simp add: heap_top_def)

lemma heap_top_pos: "0 < heap_top cs h"
  using heap_top_fold_ge [of 1 cs h] by (simp add: heap_top_def)

lemma operator_new_Ok_iff:
  "operator_new cs n s = Ok a s' \<longleftrightarrow>
     s' = s \<and> a = of_nat (heap_top cs (heap s)) \<and> heap_top cs (heap s) + n < 2 ^ 64"
  by (auto simp: operator_new_def Let_def)

lemma fresh_not_in_heap:
  assumes "heap_top cs h < 2 ^ 64"
  shows "(of_nat (heap_top cs h) :: addr) \<notin> fst ` set h"
proof
  assume "(of_nat (heap_top cs h) :: addr) \<in> fst ` set h"
  then obtain c where "(of_nat (heap_top cs h) :: addr, c) \<in> set h" by auto
  then have "unat (of_nat (heap_top cs h) :: addr) < heap_top cs h" by (rule heap_top_above)
  moreover have "unat (of_nat (heap_top cs h) :: addr) = heap_top cs h"
    using assms by (simp add: unat_of_nat)
  ultimately show False by simp
qed

lemma fresh_not_null:
  assumes "heap_top cs h < 2 ^ 64"
  shows "(of_nat (heap_top cs h) :: addr) \<noteq> nullptr"
proof -
  have "unat (of_nat (heap_top cs h) :: addr) = heap_top cs h"
    using assms by (simp add: unat_of_nat)
  then show ?thesis using heap_top_pos [of cs h] by (metis unat_0 less_irrefl)
qed

section \<open>When the primitives and constructors return\<close>

lemma ret_Ok_iff: "ret x s = Ok y s' \<longleftrightarrow> y = x \<and> s' = s"
  by (auto simp: ret_def)

lemma throw_Ok_iff: "throw e s = Ok y s' \<longleftrightarrow> False"
  by (simp add: throw_def)

lemma block_at_Some_iff:
  "block_at hp b = Some blk \<longleftrightarrow> map_of hp b = Some (Block_cell blk)"
  by (auto simp: block_at_def split: option.splits cell.splits)

lemma load_block_Ok: "load_block b s = Ok blk s' \<longleftrightarrow> s' = s \<and> block_at (heap s) b = Some blk"
  by (auto simp: load_block_Ok_iff block_at_Some_iff)

lemma load_block_eval: "block_at (heap s) b = Some blk \<Longrightarrow> load_block b s = Ok blk s"
  by (simp add: load_block_Ok)

lemma get_descriptor_eval: "lookup_handle s h = Some d \<Longrightarrow> get_descriptor h s = Ok d s"
  by (simp add: get_descriptor_Ok_iff)

lemma store_Ok_iff: "store a c s = Ok u s' \<longleftrightarrow> s' = s\<lparr>heap := AList.update a c (heap s)\<rparr>"
  by (auto simp: store_def)

lemma release_Ok_iff: "release a s = Ok u s' \<longleftrightarrow> s' = s\<lparr>heap := AList.delete a (heap s)\<rparr>"
  by (auto simp: release_def)

lemma new_handle_Ok_iff:
  "new_handle d s = Ok h s' \<longleftrightarrow> h = length (handles s) \<and> s' = s\<lparr>handles := handles s @ [Some d]\<rparr>"
  by (auto simp: new_handle_def)

lemma set_descriptor_Ok_iff:
  "set_descriptor h v s = Ok u s' \<longleftrightarrow>
     lookup_handle s h \<noteq> None \<and> s' = s\<lparr>handles := (handles s)[h := Some v]\<rparr>"
  by (auto simp: set_descriptor_def split: option.splits)

lemma end_handle_Ok_iff:
  "end_handle h s = Ok u s' \<longleftrightarrow>
     lookup_handle s h \<noteq> None \<and> s' = s\<lparr>handles := (handles s)[h := None]\<rparr>"
  by (auto simp: end_handle_def split: option.splits)

lemma increment_Ok_iff:
  "increment b s = Ok u s' \<longleftrightarrow>
     (\<exists>blk. block_at (heap s) b = Some blk
        \<and> s' = s\<lparr>heap := AList.update b (Block_cell (blk\<lparr>count := count blk + 1\<rparr>)) (heap s)\<rparr>)"
  by (auto simp: increment_def seq_Ok_iff load_block_Ok store_Ok_iff)

lemma decrement_Ok_iff:
  "decrement b s = Ok u s' \<longleftrightarrow>
     (\<exists>blk. block_at (heap s) b = Some blk \<and> s' = s\<lparr>heap := drop_ref b blk (heap s)\<rparr>)"
  by (auto simp: decrement_def seq_Ok_iff load_block_Ok store_Ok_iff release_Ok_iff ret_Ok_iff
      delete_update_same drop_ref_def)

lemma exchange_descriptor_Ok_iff:
  "exchange_descriptor h v s = Ok d s' \<longleftrightarrow>
     lookup_handle s h = Some d \<and> s' = s\<lparr>handles := (handles s)[h := Some v]\<rparr>"
  by (auto simp: exchange_descriptor_def seq_Ok_iff get_descriptor_Ok_iff set_descriptor_Ok_iff
      ret_Ok_iff)

lemma lookup_handle_Some_iff:
  "lookup_handle s h = Some d \<longleftrightarrow> h < length (handles s) \<and> handles s ! h = Some d"
  by (simp add: lookup_handle_def)

lemma lookup_handle_heap [simp]:
  "lookup_handle (s\<lparr>heap := hp\<rparr>) h = lookup_handle s h"
  by (simp add: lookup_handle_def)

lemma lookup_handle_handles [simp]:
  "lookup_handle (s\<lparr>handles := hs\<rparr>) h = (if h < length hs then hs ! h else None)"
  by (simp add: lookup_handle_def)

lemma add_offset_Ok_iff:
  "add_offset h n s = Ok u s' \<longleftrightarrow>
     (\<exists>d. lookup_handle s h = Some d
        \<and> s' = s\<lparr>handles := (handles s)[h := Some (d\<lparr>upcast_offset := upcast_offset d + n\<rparr>)]\<rparr>)"
  by (auto simp: add_offset_def seq_Ok_iff get_descriptor_Ok_iff set_descriptor_Ok_iff)

lemma sub_offset_Ok_iff:
  "sub_offset h n s = Ok u s' \<longleftrightarrow>
     (\<exists>d. lookup_handle s h = Some d
        \<and> s' = s\<lparr>handles := (handles s)[h := Some (d\<lparr>upcast_offset := upcast_offset d - n\<rparr>)]\<rparr>)"
  by (auto simp: sub_offset_def seq_Ok_iff get_descriptor_Ok_iff set_descriptor_Ok_iff)

lemma new_obj_Ok_iff:
  "new_obj cs T ms s = Ok a s' \<longleftrightarrow>
     heap_top cs (heap s) + max 1 (sizeof cs T) < 2 ^ 64
     \<and> a = of_nat (heap_top cs (heap s))
     \<and> s' = s\<lparr>heap := AList.update a (Obj_cell \<lparr>dyn = T, members = ms\<rparr>) (heap s)\<rparr>"
  by (auto simp: new_obj_def seq_Ok_iff operator_new_Ok_iff store_Ok_iff ret_Ok_iff)

lemma new_block_Ok_iff:
  "new_block cs d s = Ok b s' \<longleftrightarrow>
     d \<noteq> nullptr \<and> heap_top cs (heap s) + 16 < 2 ^ 64
     \<and> b = of_nat (heap_top cs (heap s))
     \<and> s' = s\<lparr>heap := AList.update b (Block_cell \<lparr>count = 0, data = d\<rparr>) (heap s)\<rparr>"
  by (auto simp: new_block_def block_ctor_def seq_Ok_iff operator_new_Ok_iff store_Ok_iff
      ret_Ok_iff throw_Ok_iff)

lemma ptr_of_descriptor_Ok_iff:
  "ptr_of_descriptor d s = Ok h s' \<longleftrightarrow>
     (\<exists>blk. block_at (heap s) (block_ptr d) = Some blk \<and> h = length (handles s)
        \<and> s' = s\<lparr>heap := AList.update (block_ptr d) (Block_cell (blk\<lparr>count := count blk + 1\<rparr>)) (heap s),
                 handles := handles s @ [Some d]\<rparr>)"
  by (auto simp: ptr_of_descriptor_def seq_Ok_iff new_handle_Ok_iff increment_Ok_iff ret_Ok_iff)

lemma ptr_of_block_Ok_iff:
  "ptr_of_block b off op_p s = Ok h s' \<longleftrightarrow>
     (\<exists>blk. block_at (heap s) b = Some blk \<and> h = length (handles s)
        \<and> s' = s\<lparr>heap := AList.update b (Block_cell (blk\<lparr>count := count blk + 1\<rparr>)) (heap s),
                 handles := handles s @ [Some \<lparr>block_ptr = b, upcast_offset = off, op_ptr = op_p\<rparr>]\<rparr>)"
  by (auto simp: ptr_of_block_def seq_Ok_iff new_handle_Ok_iff increment_Ok_iff ret_Ok_iff)

lemma clone_Ok_iff:
  "clone cs U value nullptr s = Ok a s' \<longleftrightarrow>
     copy_constructible cs U
     \<and> (\<exists>ob. map_of (heap s) value = Some (Obj_cell ob)
          \<and> heap_top cs (heap s) + max 1 (sizeof cs U) < 2 ^ 64
          \<and> a = of_nat (heap_top cs (heap s))
          \<and> s' = s\<lparr>heap := AList.update a
                  (Obj_cell \<lparr>dyn = U, members = copy_construct cs U (members ob)\<rparr>) (heap s)\<rparr>)"
  by (auto simp: clone_def op_def clone_impl_def seq_Ok_iff load_obj_Ok_iff new_obj_Ok_iff
      throw_Ok_iff)

lemma ptr_clone_Ok_iff:
  "ptr_clone cs this off nullptr s = Ok d' s' \<longleftrightarrow>
     (\<exists>d blk ob.
        lookup_handle s this = Some d
        \<and> block_at (heap s) (block_ptr d) = Some blk
        \<and> map_of (heap s) (data blk) = Some (Obj_cell ob)
        \<and> copy_constructible cs (op_ptr d)
        \<and> heap_top cs (heap s) + max 1 (sizeof cs (op_ptr d)) < 2 ^ 64
        \<and> heap_top cs (AList.update (of_nat (heap_top cs (heap s)))
               (Obj_cell \<lparr>dyn = op_ptr d, members = copy_construct cs (op_ptr d) (members ob)\<rparr>)
               (heap s)) + 16 < 2 ^ 64
        \<and> d' = \<lparr>block_ptr = of_nat (heap_top cs (AList.update (of_nat (heap_top cs (heap s)))
               (Obj_cell \<lparr>dyn = op_ptr d, members = copy_construct cs (op_ptr d) (members ob)\<rparr>)
               (heap s))),
                 upcast_offset = upcast_offset d + off, op_ptr = op_ptr d\<rparr>
        \<and> s' = s\<lparr>heap := AList.update (block_ptr d')
                  (Block_cell \<lparr>count = 0, data = of_nat (heap_top cs (heap s))\<rparr>)
                  (AList.update (of_nat (heap_top cs (heap s)))
                     (Obj_cell \<lparr>dyn = op_ptr d, members = copy_construct cs (op_ptr d) (members ob)\<rparr>)
                     (heap s))\<rparr>)"
  apply (simp add: ptr_clone_def seq_Ok_iff get_descriptor_Ok_iff load_block_Ok clone_Ok_iff
      new_block_Ok_iff ret_Ok_iff type_op_def op_def)
  apply (rule iffI)
   apply (elim exE conjE)
   apply (simp add: fresh_not_null)
  apply (elim exE conjE)
  apply (simp add: fresh_not_null)
  done

section \<open>When the operations on handles return\<close>

lemma ptr_copy_Ok_iff:
  "ptr_copy other s = Ok this s' \<longleftrightarrow>
     (\<exists>d blk. lookup_handle s other = Some d \<and> block_at (heap s) (block_ptr d) = Some blk
        \<and> this = length (handles s)
        \<and> s' = s\<lparr>heap := AList.update (block_ptr d) (Block_cell (blk\<lparr>count := count blk + 1\<rparr>)) (heap s),
                 handles := handles s @ [Some d]\<rparr>)"
  by (auto simp: ptr_copy_def seq_Ok_iff get_descriptor_Ok_iff new_handle_Ok_iff increment_Ok_iff
      ret_Ok_iff)

lemma ptr_widen_Ok_iff:
  "ptr_widen cs T U other s = Ok this s' \<longleftrightarrow>
     (\<exists>d blk. lookup_handle s other = Some d \<and> block_at (heap s) (block_ptr d) = Some blk
        \<and> this = length (handles s)
        \<and> s' = s\<lparr>heap := AList.update (block_ptr d) (Block_cell (blk\<lparr>count := count blk + 1\<rparr>)) (heap s),
                 handles := handles s @
                   [Some (d\<lparr>upcast_offset := upcast_offset d + compute_upcast_offset cs T U\<rparr>)]\<rparr>)"
  by (auto simp: ptr_widen_def seq_Ok_iff get_descriptor_Ok_iff new_handle_Ok_iff increment_Ok_iff
      ret_Ok_iff add_offset_Ok_iff)

lemma ptr_of_val_Ok_iff:
  "ptr_of_val cs T U v s = Ok this s' \<longleftrightarrow>
     (\<exists>d blk. lookup_handle s (val_data v) = Some d \<and> block_at (heap s) (block_ptr d) = Some blk
        \<and> this = length (handles s)
        \<and> s' = s\<lparr>heap := AList.update (block_ptr d) (Block_cell (blk\<lparr>count := count blk + 1\<rparr>)) (heap s),
                 handles := handles s @
                   [Some (d\<lparr>upcast_offset := upcast_offset d + compute_upcast_offset cs T U\<rparr>)]\<rparr>)"
  by (auto simp: ptr_of_val_def seq_Ok_iff get_descriptor_Ok_iff new_handle_Ok_iff increment_Ok_iff
      ret_Ok_iff add_offset_Ok_iff)

lemma ptr_arrow_Ok_iff:
  "ptr_arrow this s = Ok p s' \<longleftrightarrow>
     s' = s \<and> (\<exists>d blk. lookup_handle s this = Some d \<and> block_at (heap s) (block_ptr d) = Some blk
        \<and> p = data blk + upcast_offset d)"
  by (auto simp: ptr_arrow_def seq_Ok_iff get_descriptor_Ok_iff load_block_Ok ret_Ok_iff)

lemma dynamic_cast_same: "dynamic_cast cs U U p s = Ok p s"
  by (simp add: dynamic_cast_def)

lemma dynamic_cast_Ok_state: "dynamic_cast cs T U p s = Ok r s' \<Longrightarrow> s' = s"
  by (auto simp: dynamic_cast_def split: if_splits option.splits cell.splits prod.splits)

lemma ptr_narrow_Ok_iff:
  "ptr_narrow cs T U other s = Ok this s' \<longleftrightarrow>
     (\<exists>d blk. lookup_handle s other = Some d \<and> block_at (heap s) (block_ptr d) = Some blk
        \<and> this = length (handles s)
        \<and> s' = s\<lparr>heap := AList.update (block_ptr d) (Block_cell (blk\<lparr>count := count blk + 1\<rparr>)) (heap s),
                 handles := handles s @
                   [Some (d\<lparr>upcast_offset := upcast_offset d - compute_upcast_offset cs T U\<rparr>)]\<rparr>)"
  by (auto simp: ptr_narrow_def seq_Ok_iff get_descriptor_Ok_iff new_handle_Ok_iff increment_Ok_iff
      ret_Ok_iff sub_offset_Ok_iff ptr_arrow_Ok_iff dynamic_cast_same)

lemma ptr_narrow_val_Ok:
  assumes "ptr_narrow_val cs T U v s = Ok this s'"
  shows "\<exists>d blk. lookup_handle s (val_data v) = Some d \<and> block_at (heap s) (block_ptr d) = Some blk
        \<and> this = length (handles s)
        \<and> s' = s\<lparr>heap := AList.update (block_ptr d) (Block_cell (blk\<lparr>count := count blk + 1\<rparr>)) (heap s),
                 handles := handles s @
                   [Some (d\<lparr>upcast_offset := upcast_offset d - compute_upcast_offset cs T U\<rparr>)]\<rparr>"
proof -
  from assms obtain p r s1 where
    1: "val_arrow v s = Ok p s" and 2: "dynamic_cast cs T U p s = Ok r s1"
    and 3: "(if r = nullptr then throw Terminate
       else
         seq (get_descriptor (val_data v)) (\<lambda>d.
         seq (new_handle d) (\<lambda>this.
         seq (increment (block_ptr d)) (\<lambda>_.
         seq (sub_offset this (compute_upcast_offset cs T U)) (\<lambda>_. ret this))))) s1 = Ok this s'"
    by (auto simp: ptr_narrow_val_def seq_Ok_iff val_arrow_def ptr_arrow_Ok_iff)
  from 2 have s1: "s1 = s" by (rule dynamic_cast_Ok_state)
  from 3 show ?thesis
    unfolding s1
    by (auto simp: seq_Ok_iff get_descriptor_Ok_iff new_handle_Ok_iff increment_Ok_iff
      ret_Ok_iff sub_offset_Ok_iff throw_Ok_iff split: if_splits)
qed

lemma ptr_dtor_Ok_iff:
  "ptr_dtor this s = Ok u s' \<longleftrightarrow>
     (\<exists>d blk. lookup_handle s this = Some d \<and> block_at (heap s) (block_ptr d) = Some blk
        \<and> s' = s\<lparr>heap := drop_ref (block_ptr d) blk (heap s),
                 handles := (handles s)[this := None]\<rparr>)"
  by (auto simp: ptr_dtor_def seq_Ok_iff get_descriptor_Ok_iff decrement_Ok_iff end_handle_Ok_iff)

lemma ptr_assign_body_Ok_iff:
  "ptr_assign_body this other s = Ok u s' \<longleftrightarrow>
     (\<exists>d blk d0 blk0. lookup_handle s other = Some d \<and> block_at (heap s) (block_ptr d) = Some blk
        \<and> lookup_handle s this = Some d0
        \<and> block_at (AList.update (block_ptr d) (Block_cell (blk\<lparr>count := count blk + 1\<rparr>)) (heap s))
              (block_ptr d0) = Some blk0
        \<and> s' = s\<lparr>heap := drop_ref (block_ptr d0) blk0
                           (AList.update (block_ptr d) (Block_cell (blk\<lparr>count := count blk + 1\<rparr>)) (heap s)),
                 handles := (handles s)[this := Some d]\<rparr>)"
  by (auto simp: ptr_assign_body_def seq_Ok_iff get_descriptor_Ok_iff increment_Ok_iff
      exchange_descriptor_Ok_iff decrement_Ok_iff)

lemma ptr_assign_widen_body_Ok_iff:
  "ptr_assign_widen_body cs T U this other s = Ok u s' \<longleftrightarrow>
     (\<exists>d blk d0 blk0. lookup_handle s other = Some d \<and> block_at (heap s) (block_ptr d) = Some blk
        \<and> lookup_handle s this = Some d0
        \<and> block_at (AList.update (block_ptr d) (Block_cell (blk\<lparr>count := count blk + 1\<rparr>)) (heap s))
              (block_ptr d0) = Some blk0
        \<and> s' = s\<lparr>heap := drop_ref (block_ptr d0) blk0
                           (AList.update (block_ptr d) (Block_cell (blk\<lparr>count := count blk + 1\<rparr>)) (heap s)),
                 handles := (handles s)[this :=
                    Some (d\<lparr>upcast_offset := upcast_offset d + compute_upcast_offset cs T U\<rparr>)]\<rparr>)"
  by (auto simp: ptr_assign_widen_body_def seq_Ok_iff get_descriptor_Ok_iff increment_Ok_iff
      exchange_descriptor_Ok_iff decrement_Ok_iff)

section \<open>Counting lemmas\<close>

lemma block_at_dom: "block_at hp b = Some blk \<Longrightarrow> b \<in> fst ` set hp"
  by (auto simp: block_at_def dest: map_of_SomeD split: option.splits cell.splits intro: rev_image_eqI)

lemma no_dangling_iff:
  "no_dangling s \<longleftrightarrow>
     (\<forall>h d. lookup_handle s h = Some d \<longrightarrow> block_at (heap s) (block_ptr d) \<noteq> None)"
  by (auto simp: no_dangling_def list_all_length lookup_handle_def split: option.splits if_splits)

lemma counted_iff:
  "counted s \<longleftrightarrow>
     (\<forall>h d. lookup_handle s h = Some d \<longrightarrow> block_at (heap s) (block_ptr d) \<noteq> None)
     \<and> (\<forall>b blk. block_at (heap s) b = Some blk \<longrightarrow> count blk = int (refs (handles s) b))"
proof -
  have B: "list_all (\<lambda>b. case block_at (heap s) b of Some blk \<Rightarrow> count blk = int (refs (handles s) b) | None \<Rightarrow> True)
           (map fst (heap s))
    \<longleftrightarrow> (\<forall>b blk. block_at (heap s) b = Some blk \<longrightarrow> count blk = int (refs (handles s) b))"
  proof
    assume L: "list_all (\<lambda>b. case block_at (heap s) b of Some blk \<Rightarrow> count blk = int (refs (handles s) b) | None \<Rightarrow> True)
           (map fst (heap s))"
    show "\<forall>b blk. block_at (heap s) b = Some blk \<longrightarrow> count blk = int (refs (handles s) b)"
    proof (intro allI impI)
      fix b blk
      assume b: "block_at (heap s) b = Some blk"
      then have "b \<in> set (map fst (heap s))" using block_at_dom by fastforce
      with L b show "count blk = int (refs (handles s) b)"
        by (auto simp: list_all_iff)
    qed
  next
    assume "\<forall>b blk. block_at (heap s) b = Some blk \<longrightarrow> count blk = int (refs (handles s) b)"
    then show "list_all (\<lambda>b. case block_at (heap s) b of Some blk \<Rightarrow> count blk = int (refs (handles s) b) | None \<Rightarrow> True)
           (map fst (heap s))"
      by (auto simp: list_all_iff split: option.splits)
  qed
  show ?thesis unfolding counted_def no_dangling_iff B ..
qed

lemma block_at_update:
  "block_at (AList.update a c hp) b =
     (if b = a then (case c of Block_cell blk \<Rightarrow> Some blk | _ \<Rightarrow> None) else block_at hp b)"
  by (simp add: block_at_def update_conv')

lemma block_at_delete:
  "block_at (AList.delete a hp) b = (if b = a then None else block_at hp b)"
  by (simp add: block_at_def delete_conv')

lemma block_at_drop_ref:
  "block_at (drop_ref a blk hp) b =
     (if b = a then (if count blk = 1 then None else Some (blk\<lparr>count := count blk - 1\<rparr>))
      else block_at hp b)"
  by (simp add: drop_ref_def block_at_update block_at_delete)

lemma refs_append: "refs (hs @ [x]) b = refs hs b + (if points_to b x then 1 else 0)"
  by (simp add: refs_def)

lemma refs_update:
  "h < length hs \<Longrightarrow>
   int (refs (hs[h := x]) b) =
     int (refs hs b) - (if points_to b (hs ! h) then 1 else 0) + (if points_to b x then 1 else 0)"
proof (induction hs arbitrary: h)
  case Nil
  then show ?case by simp
next
  case (Cons y ys)
  show ?case
  proof (cases h)
    case 0
    then show ?thesis by (simp add: refs_def)
  next
    case (Suc n)
    with Cons.prems have "n < length ys" by simp
    from Cons.IH [OF this] show ?thesis by (simp add: refs_def Suc split: if_splits)
  qed
qed

lemma refs_pos: "h < length hs \<Longrightarrow> points_to b (hs ! h) \<Longrightarrow> 0 < refs hs b"
  using nth_mem [of h hs] by (auto simp: refs_def filter_empty_conv)

lemma refs_zero: "refs hs b = 0 \<Longrightarrow> h < length hs \<Longrightarrow> \<not> points_to b (hs ! h)"
  using refs_pos by fastforce

section \<open>Operations keep the counters right\<close>

lemma countedI:
  assumes "\<And>h d. h < length (handles s) \<Longrightarrow> handles s ! h = Some d \<Longrightarrow>
             block_at (heap s) (block_ptr d) \<noteq> None"
    and "\<And>b blk. block_at (heap s) b = Some blk \<Longrightarrow> count blk = int (refs (handles s) b)"
  shows "counted s"
  unfolding counted_iff lookup_handle_Some_iff using assms by blast

lemma counted_live:
  "counted s \<Longrightarrow> h < length (handles s) \<Longrightarrow> handles s ! h = Some d \<Longrightarrow>
     block_at (heap s) (block_ptr d) \<noteq> None"
  by (simp add: counted_iff lookup_handle_Some_iff)

lemma counted_count:
  "counted s \<Longrightarrow> block_at (heap s) b = Some blk \<Longrightarrow> count blk = int (refs (handles s) b)"
  by (simp add: counted_iff)

lemma points_to_Some [simp]: "points_to b (Some d) \<longleftrightarrow> block_ptr d = b"
  by (simp add: points_to_def)

lemma points_to_None [simp]: "\<not> points_to b None"
  by (simp add: points_to_def)

lemma counted_acquire:
  assumes c: "counted s" and b: "block_at (heap s) (block_ptr d) = Some blk"
    and d': "block_ptr d' = block_ptr d"
  shows "counted (s\<lparr>heap := AList.update (block_ptr d) (Block_cell (blk\<lparr>count := count blk + 1\<rparr>)) (heap s),
              handles := handles s @ [Some d']\<rparr>)"
proof (rule countedI)
  fix h e
  assume "h < length (handles (s\<lparr>heap := AList.update (block_ptr d) (Block_cell (blk\<lparr>count := count blk + 1\<rparr>)) (heap s),
              handles := handles s @ [Some d']\<rparr>))"
    and "handles (s\<lparr>heap := AList.update (block_ptr d) (Block_cell (blk\<lparr>count := count blk + 1\<rparr>)) (heap s),
              handles := handles s @ [Some d']\<rparr>) ! h = Some e"
  then show "block_at (heap (s\<lparr>heap := AList.update (block_ptr d) (Block_cell (blk\<lparr>count := count blk + 1\<rparr>)) (heap s),
              handles := handles s @ [Some d']\<rparr>)) (block_ptr e) \<noteq> None"
    using counted_live [OF c, of h e] d'
    by (auto simp: nth_append block_at_update split: if_splits)
next
  fix x blk'
  assume "block_at (heap (s\<lparr>heap := AList.update (block_ptr d) (Block_cell (blk\<lparr>count := count blk + 1\<rparr>)) (heap s),
              handles := handles s @ [Some d']\<rparr>)) x = Some blk'"
  then show "count blk' = int (refs (handles (s\<lparr>heap := AList.update (block_ptr d) (Block_cell (blk\<lparr>count := count blk + 1\<rparr>)) (heap s),
              handles := handles s @ [Some d']\<rparr>)) x)"
    using counted_count [OF c b] counted_count [OF c, of x blk'] d'
    by (auto simp: block_at_update refs_append split: if_splits)
qed

lemma counted_drop:
  assumes c: "counted s" and h: "lookup_handle s this = Some d"
    and b: "block_at (heap s) (block_ptr d) = Some blk"
  shows "counted (s\<lparr>heap := drop_ref (block_ptr d) blk (heap s),
              handles := (handles s)[this := None]\<rparr>)"
proof -
  from h have lt: "this < length (handles s)" "handles s ! this = Some d"
    by (simp_all add: lookup_handle_Some_iff)
  have r: "int (refs ((handles s)[this := None]) x) =
      int (refs (handles s) x) - (if block_ptr d = x then 1 else 0)" for x
    using refs_update [OF lt(1), of None x] lt(2) by simp
  have cb: "count blk = int (refs (handles s) (block_ptr d))"
    using counted_count [OF c b] .
  show ?thesis
  proof (rule countedI)
    fix k e
    assume "k < length (handles (s\<lparr>heap := drop_ref (block_ptr d) blk (heap s),
              handles := (handles s)[this := None]\<rparr>))"
      and "handles (s\<lparr>heap := drop_ref (block_ptr d) blk (heap s),
              handles := (handles s)[this := None]\<rparr>) ! k = Some e"
    then have k: "k < length (handles s)" "k \<noteq> this" "handles s ! k = Some e"
      using lt(1) by (auto simp: nth_list_update split: if_splits)
    have "\<not> (block_ptr e = block_ptr d \<and> count blk = 1)"
    proof
      assume a: "block_ptr e = block_ptr d \<and> count blk = 1"
      with r [of "block_ptr d"] cb have "refs ((handles s)[this := None]) (block_ptr d) = 0"
        by simp
      from refs_zero [OF this, of k] k a show False by simp
    qed
    then show "block_at (heap (s\<lparr>heap := drop_ref (block_ptr d) blk (heap s),
              handles := (handles s)[this := None]\<rparr>)) (block_ptr e) \<noteq> None"
      using counted_live [OF c k(1) k(3)] by (auto simp: block_at_drop_ref)
  next
    fix x blk'
    assume "block_at (heap (s\<lparr>heap := drop_ref (block_ptr d) blk (heap s),
              handles := (handles s)[this := None]\<rparr>)) x = Some blk'"
    then show "count blk' = int (refs (handles (s\<lparr>heap := drop_ref (block_ptr d) blk (heap s),
              handles := (handles s)[this := None]\<rparr>)) x)"
      using r [of x] cb counted_count [OF c, of x blk']
      by (auto simp: block_at_drop_ref split: if_splits)
  qed
qed

lemma counted_rebind:
  assumes c: "counted s" and o: "lookup_handle s other = Some d"
    and b: "block_at (heap s) (block_ptr d) = Some blk"
    and h: "lookup_handle s this = Some d0"
    and b0: "block_at (AList.update (block_ptr d) (Block_cell (blk\<lparr>count := count blk + 1\<rparr>)) (heap s))
              (block_ptr d0) = Some blk0"
    and d': "block_ptr d' = block_ptr d"
  shows "counted (s\<lparr>heap := drop_ref (block_ptr d0) blk0
                           (AList.update (block_ptr d) (Block_cell (blk\<lparr>count := count blk + 1\<rparr>)) (heap s)),
                 handles := (handles s)[this := Some d']\<rparr>)"
proof -
  let ?hs = "(handles s)[this := Some d']"
  let ?hp = "drop_ref (block_ptr d0) blk0
                (AList.update (block_ptr d) (Block_cell (blk\<lparr>count := count blk + 1\<rparr>)) (heap s))"
  from h have lt: "this < length (handles s)" "handles s ! this = Some d0"
    by (simp_all add: lookup_handle_Some_iff)
  from o have other: "other < length (handles s)" "handles s ! other = Some d"
    by (simp_all add: lookup_handle_Some_iff)
  have r: "int (refs ?hs x) =
      int (refs (handles s) x) - (if block_ptr d0 = x then 1 else 0)
        + (if block_ptr d = x then 1 else 0)" for x
    using refs_update [OF lt(1), of "Some d'" x] lt(2) d' by simp
  have cb: "count blk = int (refs (handles s) (block_ptr d))"
    using counted_count [OF c b] .
  have pos: "0 < count blk"
    using refs_pos [OF other(1), of "block_ptr d"] other(2) cb by simp
  have cb0: "count blk0 = int (refs (handles s) (block_ptr d0)) + (if block_ptr d0 = block_ptr d then 1 else 0)"
    using b0 cb counted_count [OF c, of "block_ptr d0" blk0]
    by (auto simp: block_at_update split: if_splits)
  have gone: "\<not> (block_ptr e = block_ptr d0 \<and> count blk0 = 1)"
    if "k < length ?hs" "?hs ! k = Some e" for k e
  proof
    assume a: "block_ptr e = block_ptr d0 \<and> count blk0 = 1"
    with r [of "block_ptr d0"] cb0 have "refs ?hs (block_ptr d0) = 0"
      by (simp split: if_splits)
    from refs_zero [OF this that(1)] that(2) a show False by simp
  qed
  have heap': "block_at ?hp x =
      (if x = block_ptr d0 then (if count blk0 = 1 then None else Some (blk0\<lparr>count := count blk0 - 1\<rparr>))
       else if x = block_ptr d then Some (blk\<lparr>count := count blk + 1\<rparr>)
       else block_at (heap s) x)" for x
    by (simp add: block_at_drop_ref block_at_update)
  show ?thesis
  proof (rule countedI)
    fix k e
    assume k: "k < length (handles (s\<lparr>heap := ?hp, handles := ?hs\<rparr>))"
      "handles (s\<lparr>heap := ?hp, handles := ?hs\<rparr>) ! k = Some e"
    then have k': "k < length ?hs" "?hs ! k = Some e" by simp_all
    have live: "block_at (heap s) (block_ptr e) \<noteq> None"
    proof (cases "k = this")
      case True
      with k' lt(1) d' b show ?thesis by simp
    next
      case False
      with k' have "k < length (handles s)" "handles s ! k = Some e" by simp_all
      then show ?thesis by (rule counted_live [OF c])
    qed
    from gone [OF k'] live
    show "block_at (heap (s\<lparr>heap := ?hp, handles := ?hs\<rparr>)) (block_ptr e) \<noteq> None"
      by (auto simp: heap')
  next
    fix x blk'
    assume "block_at (heap (s\<lparr>heap := ?hp, handles := ?hs\<rparr>)) x = Some blk'"
    then have "block_at ?hp x = Some blk'" by simp
    then have cases: "(x = block_ptr d0 \<and> count blk0 \<noteq> 1 \<and> count blk' = count blk0 - 1)
        \<or> (x \<noteq> block_ptr d0 \<and> x = block_ptr d \<and> count blk' = count blk + 1)
        \<or> (x \<noteq> block_ptr d0 \<and> x \<noteq> block_ptr d \<and> block_at (heap s) x = Some blk')"
      unfolding heap' by (auto split: if_splits)
    have "count blk' = int (refs ?hs x)"
      using cases r [of x] cb cb0 counted_count [OF c, of x blk']
      by (auto split: if_splits)
    then show "count blk' = int (refs (handles (s\<lparr>heap := ?hp, handles := ?hs\<rparr>)) x)"
      by simp
  qed
qed

lemma discard_Ok_iff: "discard m s = Ok u s' \<longleftrightarrow> (\<exists>x. m s = Ok x s')"
  by (auto simp: discard_def seq_Ok_iff ret_Ok_iff)

lemma frame_append:
  "lookup_handle s h = Some d \<Longrightarrow> lookup_handle (s\<lparr>heap := hp, handles := handles s @ [y]\<rparr>) h = Some d"
  by (simp add: lookup_handle_Some_iff nth_append)

lemma frame_update:
  "h \<noteq> this \<Longrightarrow> lookup_handle s h = Some d \<Longrightarrow>
     lookup_handle (s\<lparr>heap := hp, handles := (handles s)[this := y]\<rparr>) h = Some d"
  by (simp add: lookup_handle_Some_iff)

lemma ptr_assign_counted:
  assumes c: "counted s"
    and cp: "ptr_copy arg s = Ok other s1"
    and bd: "\<exists>d blk d0 blk0. lookup_handle s1 other = Some d \<and> block_at (heap s1) (block_ptr d) = Some blk
        \<and> lookup_handle s1 this = Some d0
        \<and> block_at (AList.update (block_ptr d) (Block_cell (blk\<lparr>count := count blk + 1\<rparr>)) (heap s1))
              (block_ptr d0) = Some blk0
        \<and> block_ptr d' = block_ptr d
        \<and> s2 = s1\<lparr>heap := drop_ref (block_ptr d0) blk0
                           (AList.update (block_ptr d) (Block_cell (blk\<lparr>count := count blk + 1\<rparr>)) (heap s1)),
                 handles := (handles s1)[this := Some d']\<rparr>"
    and dt: "ptr_dtor other s2 = Ok u s'"
  shows "counted s'"
    and "h \<noteq> this \<Longrightarrow> lookup_handle s h = Some e \<Longrightarrow> lookup_handle s' h = Some e"
proof -
  from cp obtain da blka where
    s1: "lookup_handle s arg = Some da" "block_at (heap s) (block_ptr da) = Some blka"
      "other = length (handles s)"
      "s1 = s\<lparr>heap := AList.update (block_ptr da) (Block_cell (blka\<lparr>count := count blka + 1\<rparr>)) (heap s),
                 handles := handles s @ [Some da]\<rparr>"
    unfolding ptr_copy_Ok_iff by blast
  have c1: "counted s1"
    unfolding s1(4) using c s1(2) by (rule counted_acquire) simp
  from bd obtain d blk d0 blk0 where
    b: "lookup_handle s1 other = Some d" "block_at (heap s1) (block_ptr d) = Some blk"
      "lookup_handle s1 this = Some d0"
      "block_at (AList.update (block_ptr d) (Block_cell (blk\<lparr>count := count blk + 1\<rparr>)) (heap s1))
              (block_ptr d0) = Some blk0"
      "block_ptr d' = block_ptr d"
      "s2 = s1\<lparr>heap := drop_ref (block_ptr d0) blk0
                           (AList.update (block_ptr d) (Block_cell (blk\<lparr>count := count blk + 1\<rparr>)) (heap s1)),
                 handles := (handles s1)[this := Some d']\<rparr>"
    by blast
  have c2: "counted s2"
    unfolding b(6) using c1 b(1,2,3,4,5) by (rule counted_rebind)
  from dt obtain dd blkd where
    t: "lookup_handle s2 other = Some dd" "block_at (heap s2) (block_ptr dd) = Some blkd"
      "s' = s2\<lparr>heap := drop_ref (block_ptr dd) blkd (heap s2),
                 handles := (handles s2)[other := None]\<rparr>"
    unfolding ptr_dtor_Ok_iff by blast
  show "counted s'"
    unfolding t(3) using c2 t(1,2) by (rule counted_drop)
  show "lookup_handle s' h = Some e" if "h \<noteq> this" "lookup_handle s h = Some e"
  proof -
    from that(2) have "h < length (handles s)" by (simp add: lookup_handle_Some_iff)
    with s1(3) have ne: "h \<noteq> other" by simp
    have 1: "lookup_handle s1 h = Some e"
      unfolding s1(4) using that(2) by (rule frame_append)
    have 2: "lookup_handle s2 h = Some e"
      unfolding b(6) using that(1) 1 by (rule frame_update)
    show ?thesis
      unfolding t(3) using ne 2 by (rule frame_update)
  qed
qed

lemma handle_step_counted:
  assumes c: "counted s" and st: "handle_step cs x s = Ok u s'"
  shows "counted s' \<and> (\<forall>h e. h \<notin> set (touched x) \<longrightarrow> lookup_handle s h = Some e \<longrightarrow>
           lookup_handle s' h = Some e)"
proof (cases x)
  case (Copy other)
  with st obtain d blk where
    "block_at (heap s) (block_ptr d) = Some blk"
    "s' = s\<lparr>heap := AList.update (block_ptr d) (Block_cell (blk\<lparr>count := count blk + 1\<rparr>)) (heap s),
                 handles := handles s @ [Some d]\<rparr>"
    by (auto simp: discard_Ok_iff ptr_copy_Ok_iff)
  then show ?thesis using counted_acquire [OF c, of d blk d] frame_append by simp
next
  case (Widen T U other)
  with st obtain d blk where
    "block_at (heap s) (block_ptr d) = Some blk"
    "s' = s\<lparr>heap := AList.update (block_ptr d) (Block_cell (blk\<lparr>count := count blk + 1\<rparr>)) (heap s),
                 handles := handles s @ [Some (d\<lparr>upcast_offset := upcast_offset d + compute_upcast_offset cs T U\<rparr>)]\<rparr>"
    by (auto simp: discard_Ok_iff ptr_widen_Ok_iff)
  then show ?thesis
    using counted_acquire [OF c, of d blk "d\<lparr>upcast_offset := upcast_offset d + compute_upcast_offset cs T U\<rparr>"]
      frame_append by simp
next
  case (Narrow T U other)
  with st obtain d blk where
    "block_at (heap s) (block_ptr d) = Some blk"
    "s' = s\<lparr>heap := AList.update (block_ptr d) (Block_cell (blk\<lparr>count := count blk + 1\<rparr>)) (heap s),
                 handles := handles s @ [Some (d\<lparr>upcast_offset := upcast_offset d - compute_upcast_offset cs T U\<rparr>)]\<rparr>"
    by (auto simp: discard_Ok_iff ptr_narrow_Ok_iff)
  then show ?thesis
    using counted_acquire [OF c, of d blk "d\<lparr>upcast_offset := upcast_offset d - compute_upcast_offset cs T U\<rparr>"]
      frame_append by simp
next
  case (Of_val T U v)
  with st obtain d blk where
    "block_at (heap s) (block_ptr d) = Some blk"
    "s' = s\<lparr>heap := AList.update (block_ptr d) (Block_cell (blk\<lparr>count := count blk + 1\<rparr>)) (heap s),
                 handles := handles s @ [Some (d\<lparr>upcast_offset := upcast_offset d + compute_upcast_offset cs T U\<rparr>)]\<rparr>"
    by (auto simp: discard_Ok_iff ptr_of_val_Ok_iff)
  then show ?thesis
    using counted_acquire [OF c, of d blk "d\<lparr>upcast_offset := upcast_offset d + compute_upcast_offset cs T U\<rparr>"]
      frame_append by simp
next
  case (Narrow_val T U v)
  with st obtain this where "ptr_narrow_val cs T U v s = Ok this s'"
    by (auto simp: discard_Ok_iff)
  from ptr_narrow_val_Ok [OF this] obtain d blk where
    "block_at (heap s) (block_ptr d) = Some blk"
    "s' = s\<lparr>heap := AList.update (block_ptr d) (Block_cell (blk\<lparr>count := count blk + 1\<rparr>)) (heap s),
                 handles := handles s @ [Some (d\<lparr>upcast_offset := upcast_offset d - compute_upcast_offset cs T U\<rparr>)]\<rparr>"
    by blast
  then show ?thesis
    using counted_acquire [OF c, of d blk "d\<lparr>upcast_offset := upcast_offset d - compute_upcast_offset cs T U\<rparr>"]
      frame_append by simp
next
  case (Assign this arg)
  with st obtain other s1 s2 where
    1: "ptr_copy arg s = Ok other s1" and 2: "ptr_assign_body this other s1 = Ok () s2"
    and 3: "ptr_dtor other s2 = Ok u s'"
    by (auto simp: ptr_assign_def seq_Ok_iff)
  from 2 have bd: "\<exists>d blk d0 blk0. lookup_handle s1 other = Some d \<and> block_at (heap s1) (block_ptr d) = Some blk
        \<and> lookup_handle s1 this = Some d0
        \<and> block_at (AList.update (block_ptr d) (Block_cell (blk\<lparr>count := count blk + 1\<rparr>)) (heap s1))
              (block_ptr d0) = Some blk0
        \<and> block_ptr (the (lookup_handle s1 other)) = block_ptr d
        \<and> s2 = s1\<lparr>heap := drop_ref (block_ptr d0) blk0
                           (AList.update (block_ptr d) (Block_cell (blk\<lparr>count := count blk + 1\<rparr>)) (heap s1)),
                 handles := (handles s1)[this := Some (the (lookup_handle s1 other))]\<rparr>"
    unfolding ptr_assign_body_Ok_iff by auto
  from ptr_assign_counted [OF c 1 bd 3] show ?thesis using Assign by simp
next
  case (Assign_widen T U this arg)
  with st obtain other s1 s2 where
    1: "ptr_copy arg s = Ok other s1" and 2: "ptr_assign_widen_body cs T U this other s1 = Ok () s2"
    and 3: "ptr_dtor other s2 = Ok u s'"
    by (auto simp: ptr_assign_widen_def seq_Ok_iff)
  from 2 have bd: "\<exists>d blk d0 blk0. lookup_handle s1 other = Some d \<and> block_at (heap s1) (block_ptr d) = Some blk
        \<and> lookup_handle s1 this = Some d0
        \<and> block_at (AList.update (block_ptr d) (Block_cell (blk\<lparr>count := count blk + 1\<rparr>)) (heap s1))
              (block_ptr d0) = Some blk0
        \<and> block_ptr ((the (lookup_handle s1 other))\<lparr>upcast_offset := upcast_offset (the (lookup_handle s1 other)) + compute_upcast_offset cs T U\<rparr>) = block_ptr d
        \<and> s2 = s1\<lparr>heap := drop_ref (block_ptr d0) blk0
                           (AList.update (block_ptr d) (Block_cell (blk\<lparr>count := count blk + 1\<rparr>)) (heap s1)),
                 handles := (handles s1)[this := Some ((the (lookup_handle s1 other))\<lparr>upcast_offset := upcast_offset (the (lookup_handle s1 other)) + compute_upcast_offset cs T U\<rparr>)]\<rparr>"
    unfolding ptr_assign_widen_body_Ok_iff by auto
  from ptr_assign_counted [OF c 1 bd 3] show ?thesis using Assign_widen by simp
next
  case (Destroy this)
  with st obtain d blk where
    "lookup_handle s this = Some d" "block_at (heap s) (block_ptr d) = Some blk"
    "s' = s\<lparr>heap := drop_ref (block_ptr d) blk (heap s), handles := (handles s)[this := None]\<rparr>"
    by (auto simp: ptr_dtor_Ok_iff)
  then show ?thesis using counted_drop [OF c, of this d blk] frame_update Destroy by simp
qed

section \<open>The steps of an assignment\<close>

lemma assign_chain:
  assumes ha: "lookup_handle s arg = Some d"
    and blk: "block_at (heap s) (block_ptr d) = Some blk"
    and ht: "lookup_handle s this = Some d0"
    and blk0: "block_at (heap s) (block_ptr d0) = Some blk0"
    and pos: "0 < count blk"
    and d': "block_ptr d' = block_ptr d"
  shows "\<exists>s1 s2 s3 s4 s5.
      ptr_copy arg s = Ok (length (handles s)) s1
    \<and> get_descriptor (length (handles s)) s1 = Ok d s1
    \<and> increment (block_ptr d) s1 = Ok () s2
    \<and> exchange_descriptor this d' s2 = Ok d0 s3
    \<and> decrement (block_ptr d0) s3 = Ok () s4
    \<and> ptr_dtor (length (handles s)) s4 = Ok () s5
    \<and> counter s1 (block_ptr d) = Some (count blk + 1)
    \<and> counter s2 (block_ptr d) = Some (count blk + 2)
    \<and> counter s2 (block_ptr d0) = Some (if block_ptr d0 = block_ptr d then count blk + 2 else count blk0)
    \<and> counter s3 (block_ptr d) = Some (count blk + 2)
    \<and> counter s4 (block_ptr d) = Some (if block_ptr d0 = block_ptr d then count blk + 1 else count blk + 2)
    \<and> counter s5 (block_ptr d) = Some (if block_ptr d0 = block_ptr d then count blk else count blk + 1)
    \<and> lookup_handle s5 this = Some d'
    \<and> map_option data (block_at (heap s5) (block_ptr d)) = Some (data blk)"
proof -
  let ?bn = "block_ptr d" and ?b0 = "block_ptr d0" and ?n = "length (handles s)"
  from ha have la: "arg < ?n" "handles s ! arg = Some d" by (simp_all add: lookup_handle_Some_iff)
  from ht have lt: "this < ?n" "handles s ! this = Some d0" by (simp_all add: lookup_handle_Some_iff)
  define s1 where "s1 = s\<lparr>heap := AList.update ?bn (Block_cell (blk\<lparr>count := count blk + 1\<rparr>)) (heap s),
                 handles := handles s @ [Some d]\<rparr>"
  define s2 where "s2 = s1\<lparr>heap := AList.update ?bn (Block_cell (blk\<lparr>count := count blk + 2\<rparr>)) (heap s1)\<rparr>"
  define s3 where "s3 = s2\<lparr>handles := (handles s2)[this := Some d']\<rparr>"
  define blk3 where "blk3 = (if ?b0 = ?bn then blk\<lparr>count := count blk + 2\<rparr> else blk0)"
  define s4 where "s4 = s3\<lparr>heap := drop_ref ?b0 blk3 (heap s3)\<rparr>"
  define blk4 where "blk4 = (if ?b0 = ?bn then blk\<lparr>count := count blk + 1\<rparr> else blk\<lparr>count := count blk + 2\<rparr>)"
  define s5 where "s5 = s4\<lparr>heap := drop_ref ?bn blk4 (heap s4), handles := (handles s4)[?n := None]\<rparr>"
  have 1: "ptr_copy arg s = Ok ?n s1"
    using ha blk by (simp add: ptr_copy_Ok_iff s1_def)
  have g: "get_descriptor ?n s1 = Ok d s1"
    by (simp add: get_descriptor_Ok_iff s1_def)
  have b1: "block_at (heap s1) x = (if x = ?bn then Some (blk\<lparr>count := count blk + 1\<rparr>) else block_at (heap s) x)" for x
    by (simp add: s1_def block_at_update)
  have 2: "increment ?bn s1 = Ok () s2"
    by (simp add: increment_Ok_iff b1 s2_def add.commute)
  have b2: "block_at (heap s2) x = (if x = ?bn then Some (blk\<lparr>count := count blk + 2\<rparr>) else block_at (heap s) x)" for x
    by (simp add: s2_def block_at_update b1)
  have l2: "lookup_handle s2 this = Some d0"
    using lt by (simp add: s2_def s1_def nth_append)
  have 3: "exchange_descriptor this d' s2 = Ok d0 s3"
    using l2 by (simp add: exchange_descriptor_Ok_iff s3_def)
  have b3: "block_at (heap s3) x = block_at (heap s2) x" for x
    by (simp add: s3_def)
  have b30: "block_at (heap s3) ?b0 = Some blk3"
    using blk0 by (simp add: b3 b2 blk3_def)
  have 4: "decrement ?b0 s3 = Ok () s4"
    using b30 by (simp add: decrement_Ok_iff s4_def)
  have n1: "count blk3 = 1 \<Longrightarrow> ?b0 \<noteq> ?bn"
    using pos by (auto simp: blk3_def split: if_splits)
  have b4: "block_at (heap s4) ?bn = Some blk4"
    using n1 by (auto simp: s4_def block_at_drop_ref b3 b2 blk3_def blk4_def)
  have l4: "lookup_handle s4 ?n = Some d"
    using lt by (simp add: s4_def s3_def s2_def s1_def)
  have 5: "ptr_dtor ?n s4 = Ok () s5"
    using l4 b4 by (simp add: ptr_dtor_Ok_iff s5_def)
  have n4: "count blk4 \<noteq> 1"
    using pos by (simp add: blk4_def)
  have b5: "block_at (heap s5) ?bn = Some (blk4\<lparr>count := count blk4 - 1\<rparr>)"
    using n4 by (simp add: s5_def block_at_drop_ref)
  have l5: "lookup_handle s5 this = Some d'"
    using lt by (simp add: s5_def s4_def s3_def s2_def s1_def)
  have c1: "counter s1 ?bn = Some (count blk + 1)" by (simp add: counter_def b1)
  have c2: "counter s2 ?bn = Some (count blk + 2)" by (simp add: counter_def b2)
  have c20: "counter s2 ?b0 = Some (if ?b0 = ?bn then count blk + 2 else count blk0)"
    using blk0 by (simp add: counter_def b2)
  have c3: "counter s3 ?bn = Some (count blk + 2)" by (simp add: counter_def b3 b2)
  have c4: "counter s4 ?bn = Some (if ?b0 = ?bn then count blk + 1 else count blk + 2)"
    by (simp add: counter_def b4 blk4_def)
  have c5: "counter s5 ?bn = Some (if ?b0 = ?bn then count blk else count blk + 1)"
    by (simp add: counter_def b5 blk4_def)
  have d5: "map_option data (block_at (heap s5) ?bn) = Some (data blk)"
    by (simp add: b5 blk4_def)
  from 1 g 2 3 4 5 c1 c2 c20 c3 c4 c5 l5 d5 show ?thesis by blast
qed

lemma upcast_offset_base:
  "base_disp cs U T = Some k \<Longrightarrow> compute_upcast_offset cs T U = of_nat k"
  by (simp add: compute_upcast_offset_def c_cast_def)

lemma ptr_arrow_eval:
  assumes "lookup_handle s this = Some d"
    and "block_at (heap s) (block_ptr d) = Some blk"
  shows "ptr_arrow this s = Ok (data blk + upcast_offset d) s"
  using assms by (simp add: ptr_arrow_Ok_iff)

lemma widen_state:
  assumes base: "base_disp cs U T = Some k"
    and h: "lookup_handle s other = Some d"
    and b: "block_at (heap s) (block_ptr d) = Some blk"
    and s': "s' = s\<lparr>heap := AList.update (block_ptr d) (Block_cell (blk\<lparr>count := count blk + 1\<rparr>)) (heap s),
                 handles := handles s @
                   [Some (d\<lparr>upcast_offset := upcast_offset d + compute_upcast_offset cs T U\<rparr>)]\<rparr>"
  shows "lookup_handle s' (length (handles s)) = Some (d\<lparr>upcast_offset := upcast_offset d + of_nat k\<rparr>)"
    and "ptr_arrow (length (handles s)) s' = Ok (c_cast cs T U (data blk + upcast_offset d)) s'"
    and "ptr_arrow other s' = Ok (data blk + upcast_offset d) s'"
proof -
  from h have lt: "other < length (handles s)" "handles s ! other = Some d"
    by (simp_all add: lookup_handle_Some_iff)
  show 1: "lookup_handle s' (length (handles s)) = Some (d\<lparr>upcast_offset := upcast_offset d + of_nat k\<rparr>)"
    by (simp add: s' upcast_offset_base [OF base])
  have 2: "block_at (heap s') (block_ptr d) = Some (blk\<lparr>count := count blk + 1\<rparr>)"
    by (simp add: s' block_at_update)
  have 3: "lookup_handle s' other = Some d"
    using lt by (simp add: s' nth_append)
  show "ptr_arrow (length (handles s)) s' = Ok (c_cast cs T U (data blk + upcast_offset d)) s'"
    using ptr_arrow_eval [OF 1] 2 base by (simp add: c_cast_def add.assoc)
  show "ptr_arrow other s' = Ok (data blk + upcast_offset d) s'"
    using ptr_arrow_eval [OF 3 2] by simp
qed

section \<open>Evaluating the model\<close>

lemmas model_defs = seq_def ret_def throw_def store_def release_def load_block_def load_obj_def
  get_descriptor_def set_descriptor_def new_handle_def end_handle_def exchange_descriptor_def
  increment_def decrement_def add_offset_def sub_offset_def operator_new_def heap_top_def
  cell_size_def block_ctor_def new_block_def c_cast_def compute_upcast_offset_def new_obj_def
  placement_new_def placement_copy_def placement_move_def clone_impl_def delete_obj_def
  destroy_obj_def op_def clone_def delete_op_def destruct_def size_op_def type_op_def
  lookup_handle_def ptr_copy_def ptr_dtor_def ptr_assign_body_def ptr_assign_def ptr_widen_def
  ptr_assign_widen_body_def ptr_assign_widen_def ptr_arrow_def ptr_narrow_def
  ptr_of_descriptor_def ptr_of_block_def ptr_clone_def get_size_of_data_def emplacement_ptr_def
  construct_copy_def construct_move_def construct_rvalue_def val_of_ptr_def val_adopt_def val_of_value_def
  val_of_rvalue_def val_of_derived_def val_of_derived_rvalue_def val_copy_def val_convert_def
  exchange_data_def load_count_def val_dtor_def val_arrow_def val_clone_def ptr_of_val_def
  ptr_narrow_val_def val_read_def val_write_def dynamic_cast_def sub_object_def block_at_def
  discard_def

lemmas example_defs = shapes_def Shape_def Circle_def Square_def Token_def Named_circle_def
  empty_state_def circle_state_def circle_val_def
  watched_state_def inline_val_def token_state_def token_val_def named_state_def named_val_def
  named_own_state_def

lemma run_ops_counted:
  assumes "counted s" and "lookup_handle s h = Some d"
    and "h \<notin> set (concat (map touched ops))" and "run_ops cs ops s = Ok u s'"
  shows "counted s' \<and> lookup_handle s' h = Some d"
  using assms
proof (induction ops arbitrary: s)
  case Nil
  then show ?case by (simp add: ret_Ok_iff)
next
  case (Cons x xs)
  from Cons.prems(4) obtain s1 where
    1: "handle_step cs x s = Ok () s1" and 2: "run_ops cs xs s1 = Ok u s'"
    by (auto simp: seq_Ok_iff)
  from handle_step_counted [OF Cons.prems(1) 1] Cons.prems(2,3)
  have "counted s1" "lookup_handle s1 h = Some d" by auto
  moreover from Cons.prems(3) have "h \<notin> set (concat (map touched xs))" by simp
  ultimately show ?case using 2 by (rule Cons.IH)
qed

lemma run_ops_take:
  "run_ops cs ops s = Ok u s'' \<Longrightarrow> \<exists>s'. run_ops cs (take n ops) s = Ok () s'"
proof (induction ops arbitrary: n s)
  case Nil
  then show ?case by (simp add: ret_def)
next
  case (Cons x xs)
  show ?case
  proof (cases n)
    case 0
    then show ?thesis by (simp add: ret_def)
  next
    case (Suc m)
    from Cons.prems obtain s1 where
      1: "handle_step cs x s = Ok () s1" and 2: "run_ops cs xs s1 = Ok u s''"
      by (auto simp: seq_Ok_iff)
    from Cons.IH [OF 2, of m] 1 show ?thesis by (simp add: Suc seq_Ok)
  qed
qed

lemma circle_made:
  "val_of_derived shapes Shape Circle 16 4096 [5] empty_state = Ok circle_val circle_state"
  by (simp add: model_defs example_defs)

lemma watched_made:
  "ptr_of_val shapes Shape Shape circle_val circle_state = Ok 1 watched_state"
  by (simp add: model_defs example_defs)

lemma token_made:
  "val_of_rvalue shapes Token 8 4096 [7] empty_state = Ok token_val token_state"
  by (simp add: model_defs example_defs)

lemma named_made:
  "val_of_derived shapes Shape Named_circle 16 4096 [3] empty_state = Ok named_val named_state"
  by (simp add: model_defs example_defs)

section \<open>Fresh addresses and successful construction\<close>

lemma fresh_below:
  assumes "heap_top cs h + n < 2 ^ 64"
  shows "(of_nat (heap_top cs h) :: addr) \<notin> fst ` set h"
    and "(of_nat (heap_top cs h) :: addr) \<noteq> nullptr"
proof -
  from assms have "heap_top cs h < 2 ^ 64" by simp
  then show "(of_nat (heap_top cs h) :: addr) \<notin> fst ` set h"
    and "(of_nat (heap_top cs h) :: addr) \<noteq> nullptr"
    by (rule fresh_not_in_heap, rule fresh_not_null)
qed

lemma update_fresh_append: "a \<notin> fst ` set hp \<Longrightarrow> AList.update a c hp = hp @ [(a, c)]"
  by (induction hp) auto

lemma heap_top_append:
  "heap_top cs (hp @ [(a, c)]) = max (heap_top cs hp) (unat a + cell_size cs c)"
  by (simp add: heap_top_def)

lemma heap_top_new:
  assumes "heap_top cs hp + n < 2 ^ 64"
  shows "heap_top cs (AList.update (of_nat (heap_top cs hp)) c hp) = heap_top cs hp + cell_size cs c"
proof -
  from assms have lt: "heap_top cs hp < 2 ^ 64" by simp
  then have u: "unat (of_nat (heap_top cs hp) :: addr) = heap_top cs hp"
    by (simp add: unat_of_nat)
  show ?thesis
    using fresh_not_in_heap [OF lt] by (simp add: update_fresh_append heap_top_append u)
qed

lemma ptr_clone_uncopyable:
  assumes "\<not> copy_constructible cs (op_ptr d)"
    and "lookup_handle s this = Some d"
    and "block_at (heap s) (block_ptr d) = Some blk"
  shows "ptr_clone cs this off placement s = Fail Logic_Error s"
  using assms
  by (simp add: ptr_clone_def seq_def get_descriptor_eval load_block_eval type_op_def op_def
      ret_def clone_def clone_impl_def throw_def)

lemma val_adopt_succeeds:
  assumes "p \<noteq> nullptr" and "heap_top cs (heap s) + 16 < 2 ^ 64"
  shows "\<exists>v s' d. val_adopt cs U ss p s = Ok v s' \<and> lookup_handle s' (val_data v) = Some d
     \<and> op_ptr d = U"
  using assms
  by (simp add: val_adopt_def seq_Ok_iff new_block_Ok_iff ptr_of_block_Ok_iff ret_Ok_iff
      block_at_update)

lemma val_of_ptr_succeeds:
  assumes "p \<noteq> nullptr" and "heap_top cs (heap s) + 16 < 2 ^ 64"
  shows "\<exists>v s' d. val_of_ptr cs T U ss p s = Ok v s' \<and> lookup_handle s' (val_data v) = Some d
     \<and> op_ptr d = U"
  using assms
  by (simp add: val_of_ptr_def seq_Ok_iff new_block_Ok_iff ptr_of_block_Ok_iff ret_Ok_iff
      block_at_update)

lemma new_obj_then:
  assumes "heap_top cs (heap s) + max 1 (sizeof cs U) + 16 < 2 ^ 64"
  shows "\<exists>a s1. new_obj cs U ms s = Ok a s1 \<and> a \<noteq> nullptr \<and> heap_top cs (heap s1) + 16 < 2 ^ 64"
proof -
  from assms have 1: "heap_top cs (heap s) + max 1 (sizeof cs U) < 2 ^ 64" by simp
  show ?thesis
    using assms fresh_below(2) [OF 1] heap_top_new [OF 1]
    by (simp add: new_obj_Ok_iff cell_size_def)
qed

lemma new_obj_fresh:
  assumes "new_obj cs U ms s = Ok a s'"
  shows "a = of_nat (heap_top cs (heap s))" and "a \<noteq> nullptr" and "a \<notin> fst ` set (heap s)"
    and "map_of (heap s') a = Some (Obj_cell \<lparr>dyn = U, members = ms\<rparr>)"
  using assms fresh_below [of cs "heap s" "max 1 (sizeof cs U)"]
  by (simp_all add: new_obj_Ok_iff update_conv')

section \<open>What a clone leaves behind\<close>

lemma in_notin_neq: "x \<in> S \<Longrightarrow> y \<notin> S \<Longrightarrow> x \<noteq> y"
  by blast

lemma map_of_dom: "map_of hp a = Some c \<Longrightarrow> a \<in> fst ` set hp"
  by (metis domI dom_map_of_conv_image_fst)

text \<open>What a clone with a null placement leaves behind.\<close>

lemma ptr_clone_fresh:
  assumes "ptr_clone cs this off nullptr s = Ok d' s'"
  shows "\<exists>d blk ob a.
      lookup_handle s this = Some d
    \<and> block_at (heap s) (block_ptr d) = Some blk
    \<and> map_of (heap s) (data blk) = Some (Obj_cell ob)
    \<and> d' = \<lparr>block_ptr = block_ptr d', upcast_offset = upcast_offset d + off, op_ptr = op_ptr d\<rparr>
    \<and> a \<noteq> nullptr \<and> a \<notin> fst ` set (heap s) \<and> block_ptr d' \<notin> fst ` set (heap s) \<and> block_ptr d' \<noteq> a
    \<and> handles s' = handles s
    \<and> map_of (heap s') =
        (map_of (heap s))
          (a \<mapsto> Obj_cell \<lparr>dyn = op_ptr d, members = copy_construct cs (op_ptr d) (members ob)\<rparr>,
           block_ptr d' \<mapsto> Block_cell \<lparr>count = 0, data = a\<rparr>)"
proof -
  from assms obtain d blk ob where
    h: "lookup_handle s this = Some d"
    and b: "block_at (heap s) (block_ptr d) = Some blk"
    and ob: "map_of (heap s) (data blk) = Some (Obj_cell ob)"
    and m1: "heap_top cs (heap s) + max 1 (sizeof cs (op_ptr d)) < 2 ^ 64"
    and m2: "heap_top cs (AList.update (of_nat (heap_top cs (heap s)))
               (Obj_cell \<lparr>dyn = op_ptr d, members = copy_construct cs (op_ptr d) (members ob)\<rparr>)
               (heap s)) + 16 < 2 ^ 64"
    and d': "d' = \<lparr>block_ptr = of_nat (heap_top cs (AList.update (of_nat (heap_top cs (heap s)))
               (Obj_cell \<lparr>dyn = op_ptr d, members = copy_construct cs (op_ptr d) (members ob)\<rparr>)
               (heap s))),
                 upcast_offset = upcast_offset d + off, op_ptr = op_ptr d\<rparr>"
    and s': "s' = s\<lparr>heap := AList.update (block_ptr d')
                  (Block_cell \<lparr>count = 0, data = of_nat (heap_top cs (heap s))\<rparr>)
                  (AList.update (of_nat (heap_top cs (heap s)))
                     (Obj_cell \<lparr>dyn = op_ptr d, members = copy_construct cs (op_ptr d) (members ob)\<rparr>)
                     (heap s))\<rparr>"
    unfolding ptr_clone_Ok_iff by blast
  let ?a = "of_nat (heap_top cs (heap s)) :: addr"
  let ?o = "Obj_cell \<lparr>dyn = op_ptr d, members = copy_construct cs (op_ptr d) (members ob)\<rparr>"
  let ?hp1 = "AList.update ?a ?o (heap s)"
  have a: "?a \<noteq> nullptr" "?a \<notin> fst ` set (heap s)"
    using fresh_below [OF m1] by simp_all
  have bp: "block_ptr d' = of_nat (heap_top cs ?hp1)" by (simp add: d')
  have "block_ptr d' \<notin> fst ` set ?hp1"
    unfolding bp using fresh_below (1) [OF m2] .
  then have b': "block_ptr d' \<noteq> ?a" "block_ptr d' \<notin> fst ` set (heap s)"
    by (simp_all add: dom_update)
  have d'': "d' = \<lparr>block_ptr = block_ptr d', upcast_offset = upcast_offset d + off, op_ptr = op_ptr d\<rparr>"
    by (simp add: d')
  have hs: "handles s' = handles s" by (simp add: s')
  have mp: "map_of (heap s') = (map_of (heap s))(?a \<mapsto> ?o, block_ptr d' \<mapsto> Block_cell \<lparr>count = 0, data = ?a\<rparr>)"
    by (simp add: s' update_conv')
  from h b ob d'' a b' hs mp show ?thesis by blast
qed

section \<open>Blocks out of reach\<close>

text \<open>A block that no handle names is out of reach of the operations on handles.\<close>

lemma unnamed_acquire:
  assumes r: "refs (handles s) b = 0" and h: "lookup_handle s src = Some d"
    and d': "block_ptr d' = block_ptr d"
    and s': "s' = s\<lparr>heap := AList.update (block_ptr d) c (heap s), handles := handles s @ [Some d']\<rparr>"
  shows "block_at (heap s') b = block_at (heap s) b \<and> refs (handles s') b = 0"
proof -
  from h have lt: "src < length (handles s)" "handles s ! src = Some d"
    by (simp_all add: lookup_handle_Some_iff)
  from refs_zero [OF r lt(1)] lt(2) have ne: "block_ptr d \<noteq> b" by simp
  with r d' show ?thesis by (simp add: s' block_at_update refs_append)
qed

lemma unnamed_drop:
  assumes r: "refs (handles s) b = 0" and h: "lookup_handle s this = Some d"
    and s': "s' = s\<lparr>heap := drop_ref (block_ptr d) blk (heap s), handles := (handles s)[this := y]\<rparr>"
    and y: "\<not> points_to b y"
  shows "block_at (heap s') b = block_at (heap s) b \<and> refs (handles s') b = 0"
proof -
  from h have lt: "this < length (handles s)" "handles s ! this = Some d"
    by (simp_all add: lookup_handle_Some_iff)
  from refs_zero [OF r lt(1)] lt(2) have ne: "block_ptr d \<noteq> b" by simp
  have "int (refs ((handles s)[this := y]) b) = 0"
    using refs_update [OF lt(1), of y b] lt(2) ne r y by simp
  with ne show ?thesis by (simp add: s' block_at_drop_ref)
qed

lemma unnamed_assign:
  assumes r: "refs (handles s) b = 0"
    and cp: "ptr_copy arg s = Ok other s1"
    and bd: "\<exists>d blk d0 blk0. lookup_handle s1 other = Some d \<and> block_at (heap s1) (block_ptr d) = Some blk
        \<and> lookup_handle s1 this = Some d0
        \<and> block_ptr d' = block_ptr d
        \<and> s2 = s1\<lparr>heap := drop_ref (block_ptr d0) blk0
                           (AList.update (block_ptr d) (Block_cell (blk\<lparr>count := count blk + 1\<rparr>)) (heap s1)),
                 handles := (handles s1)[this := Some d']\<rparr>"
    and dt: "ptr_dtor other s2 = Ok u s'"
  shows "block_at (heap s') b = block_at (heap s) b \<and> refs (handles s') b = 0"
proof -
  from cp obtain da blka where
    s1: "lookup_handle s arg = Some da"
      "s1 = s\<lparr>heap := AList.update (block_ptr da) (Block_cell (blka\<lparr>count := count blka + 1\<rparr>)) (heap s),
                 handles := handles s @ [Some da]\<rparr>"
    unfolding ptr_copy_Ok_iff by blast
  from unnamed_acquire [OF r s1(1) refl s1(2)]
  have 1: "block_at (heap s1) b = block_at (heap s) b" "refs (handles s1) b = 0" by simp_all
  from bd obtain d blk d0 blk0 where
    b: "lookup_handle s1 other = Some d" "lookup_handle s1 this = Some d0" "block_ptr d' = block_ptr d"
      "s2 = s1\<lparr>heap := drop_ref (block_ptr d0) blk0
                           (AList.update (block_ptr d) (Block_cell (blk\<lparr>count := count blk + 1\<rparr>)) (heap s1)),
                 handles := (handles s1)[this := Some d']\<rparr>"
    by blast
  from b(1) have lo: "other < length (handles s1)" "handles s1 ! other = Some d"
    by (simp_all add: lookup_handle_Some_iff)
  from b(2) have lt: "this < length (handles s1)" "handles s1 ! this = Some d0"
    by (simp_all add: lookup_handle_Some_iff)
  from refs_zero [OF 1(2) lo(1)] lo(2) have nd: "block_ptr d \<noteq> b" by simp
  from refs_zero [OF 1(2) lt(1)] lt(2) have n0: "block_ptr d0 \<noteq> b" by simp
  have "int (refs ((handles s1)[this := Some d']) b) = 0"
    using refs_update [OF lt(1), of "Some d'" b] lt(2) nd n0 1(2) b(3) by simp
  with nd n0 have 2: "block_at (heap s2) b = block_at (heap s1) b" "refs (handles s2) b = 0"
    by (simp_all add: b(4) block_at_drop_ref block_at_update)
  from dt obtain dd blkd where
    t: "lookup_handle s2 other = Some dd"
      "s' = s2\<lparr>heap := drop_ref (block_ptr dd) blkd (heap s2),
                 handles := (handles s2)[other := None]\<rparr>"
    unfolding ptr_dtor_Ok_iff by blast
  from unnamed_drop [OF 2(2) t(1) t(2)] 1(1) 2(1) show ?thesis by simp
qed

lemma handle_step_unnamed:
  assumes r: "refs (handles s) b = 0" and st: "handle_step cs x s = Ok u s'"
  shows "block_at (heap s') b = block_at (heap s) b \<and> refs (handles s') b = 0"
proof (cases x)
  case (Copy other)
  with st obtain d blk where
    "lookup_handle s other = Some d"
    "s' = s\<lparr>heap := AList.update (block_ptr d) (Block_cell (blk\<lparr>count := count blk + 1\<rparr>)) (heap s),
                 handles := handles s @ [Some d]\<rparr>"
    by (auto simp: discard_Ok_iff ptr_copy_Ok_iff)
  then show ?thesis using r by (intro unnamed_acquire [where d' = d]) simp_all
next
  case (Widen T U other)
  with st obtain d blk where
    "lookup_handle s other = Some d"
    "s' = s\<lparr>heap := AList.update (block_ptr d) (Block_cell (blk\<lparr>count := count blk + 1\<rparr>)) (heap s),
                 handles := handles s @ [Some (d\<lparr>upcast_offset := upcast_offset d + compute_upcast_offset cs T U\<rparr>)]\<rparr>"
    by (auto simp: discard_Ok_iff ptr_widen_Ok_iff)
  then show ?thesis using r
    by (intro unnamed_acquire [where d' = "d\<lparr>upcast_offset := upcast_offset d + compute_upcast_offset cs T U\<rparr>"]) simp_all
next
  case (Narrow T U other)
  with st obtain d blk where
    "lookup_handle s other = Some d"
    "s' = s\<lparr>heap := AList.update (block_ptr d) (Block_cell (blk\<lparr>count := count blk + 1\<rparr>)) (heap s),
                 handles := handles s @ [Some (d\<lparr>upcast_offset := upcast_offset d - compute_upcast_offset cs T U\<rparr>)]\<rparr>"
    by (auto simp: discard_Ok_iff ptr_narrow_Ok_iff)
  then show ?thesis using r
    by (intro unnamed_acquire [where d' = "d\<lparr>upcast_offset := upcast_offset d - compute_upcast_offset cs T U\<rparr>"]) simp_all
next
  case (Of_val T U v)
  with st obtain d blk where
    "lookup_handle s (val_data v) = Some d"
    "s' = s\<lparr>heap := AList.update (block_ptr d) (Block_cell (blk\<lparr>count := count blk + 1\<rparr>)) (heap s),
                 handles := handles s @ [Some (d\<lparr>upcast_offset := upcast_offset d + compute_upcast_offset cs T U\<rparr>)]\<rparr>"
    by (auto simp: discard_Ok_iff ptr_of_val_Ok_iff)
  then show ?thesis using r
    by (intro unnamed_acquire [where d' = "d\<lparr>upcast_offset := upcast_offset d + compute_upcast_offset cs T U\<rparr>"]) simp_all
next
  case (Narrow_val T U v)
  with st obtain this where "ptr_narrow_val cs T U v s = Ok this s'"
    by (auto simp: discard_Ok_iff)
  from ptr_narrow_val_Ok [OF this] obtain d blk where
    "lookup_handle s (val_data v) = Some d"
    "s' = s\<lparr>heap := AList.update (block_ptr d) (Block_cell (blk\<lparr>count := count blk + 1\<rparr>)) (heap s),
                 handles := handles s @ [Some (d\<lparr>upcast_offset := upcast_offset d - compute_upcast_offset cs T U\<rparr>)]\<rparr>"
    by blast
  then show ?thesis using r
    by (intro unnamed_acquire [where d' = "d\<lparr>upcast_offset := upcast_offset d - compute_upcast_offset cs T U\<rparr>"]) simp_all
next
  case (Assign this arg)
  with st obtain other s1 s2 where
    1: "ptr_copy arg s = Ok other s1" and 2: "ptr_assign_body this other s1 = Ok () s2"
    and 3: "ptr_dtor other s2 = Ok u s'"
    by (auto simp: ptr_assign_def seq_Ok_iff)
  from 2 have bd: "\<exists>d blk d0 blk0. lookup_handle s1 other = Some d \<and> block_at (heap s1) (block_ptr d) = Some blk
        \<and> lookup_handle s1 this = Some d0
        \<and> block_ptr (the (lookup_handle s1 other)) = block_ptr d
        \<and> s2 = s1\<lparr>heap := drop_ref (block_ptr d0) blk0
                           (AList.update (block_ptr d) (Block_cell (blk\<lparr>count := count blk + 1\<rparr>)) (heap s1)),
                 handles := (handles s1)[this := Some (the (lookup_handle s1 other))]\<rparr>"
    unfolding ptr_assign_body_Ok_iff by auto
  from unnamed_assign [OF r 1 bd 3] show ?thesis .
next
  case (Assign_widen T U this arg)
  with st obtain other s1 s2 where
    1: "ptr_copy arg s = Ok other s1" and 2: "ptr_assign_widen_body cs T U this other s1 = Ok () s2"
    and 3: "ptr_dtor other s2 = Ok u s'"
    by (auto simp: ptr_assign_widen_def seq_Ok_iff)
  from 2 have bd: "\<exists>d blk d0 blk0. lookup_handle s1 other = Some d \<and> block_at (heap s1) (block_ptr d) = Some blk
        \<and> lookup_handle s1 this = Some d0
        \<and> block_ptr ((the (lookup_handle s1 other))\<lparr>upcast_offset := upcast_offset (the (lookup_handle s1 other)) + compute_upcast_offset cs T U\<rparr>) = block_ptr d
        \<and> s2 = s1\<lparr>heap := drop_ref (block_ptr d0) blk0
                           (AList.update (block_ptr d) (Block_cell (blk\<lparr>count := count blk + 1\<rparr>)) (heap s1)),
                 handles := (handles s1)[this := Some ((the (lookup_handle s1 other))\<lparr>upcast_offset := upcast_offset (the (lookup_handle s1 other)) + compute_upcast_offset cs T U\<rparr>)]\<rparr>"
    unfolding ptr_assign_widen_body_Ok_iff by auto
  from unnamed_assign [OF r 1 bd 3] show ?thesis .
next
  case (Destroy this)
  with st obtain d blk where
    "lookup_handle s this = Some d"
    "s' = s\<lparr>heap := drop_ref (block_ptr d) blk (heap s), handles := (handles s)[this := None]\<rparr>"
    by (auto simp: ptr_dtor_Ok_iff)
  then show ?thesis using r by (intro unnamed_drop [where y = None]) simp_all
qed

lemma run_ops_unnamed:
  assumes "refs (handles s) b = 0" and "run_ops cs ops s = Ok u s'"
  shows "block_at (heap s') b = block_at (heap s) b \<and> refs (handles s') b = 0"
  using assms
proof (induction ops arbitrary: s)
  case Nil
  then show ?case by (simp add: ret_Ok_iff)
next
  case (Cons x xs)
  from Cons.prems(2) obtain s1 where
    1: "handle_step cs x s = Ok () s1" and 2: "run_ops cs xs s1 = Ok u s'"
    by (auto simp: seq_Ok_iff)
  from handle_step_unnamed [OF Cons.prems(1) 1]
  have 3: "block_at (heap s1) b = block_at (heap s) b" "refs (handles s1) b = 0" by simp_all
  from Cons.IH [OF 3(2) 2] 3(1) show ?case by simp
qed

lemma named_own_made:
  "seq (val_of_value shapes Named_circle 32 4096 [3])
     (\<lambda>m. ptr_of_val shapes Shape Named_circle m) empty_state = Ok 1 named_own_state"
  by (simp add: model_defs example_defs)

section \<open>Containers keep the counters right\<close>

lemma counted_empty: "counted empty_state"
  by (simp add: counted_def no_dangling_def empty_state_def)

lemma unnamed_outside:
  assumes c: "counted s" and b: "block_at (heap s) b = None"
  shows "refs (handles s) b = 0"
proof -
  have "\<not> points_to b x" if "x \<in> set (handles s)" for x
  proof (cases x)
    case None
    then show ?thesis by simp
  next
    case (Some e)
    from that obtain h where "h < length (handles s)" "handles s ! h = x"
      by (auto simp: in_set_conv_nth)
    with Some counted_live [OF c, of h e] b show ?thesis by auto
  qed
  then show ?thesis by (simp add: refs_def filter_empty_conv)
qed

lemma block_at_fresh: "a \<notin> fst ` set hp \<Longrightarrow> block_at hp a = None"
  using block_at_dom [of hp a] by (cases "block_at hp a") auto

lemma counted_store_obj:
  assumes c: "counted s" and b: "block_at (heap s) a = None"
  shows "counted (s\<lparr>heap := AList.update a (Obj_cell ob) (heap s)\<rparr>)"
proof (rule countedI)
  fix h d
  assume "h < length (handles (s\<lparr>heap := AList.update a (Obj_cell ob) (heap s)\<rparr>))"
    and "handles (s\<lparr>heap := AList.update a (Obj_cell ob) (heap s)\<rparr>) ! h = Some d"
  then have "block_at (heap s) (block_ptr d) \<noteq> None"
    using counted_live [OF c, of h d] by simp
  with b show "block_at (heap (s\<lparr>heap := AList.update a (Obj_cell ob) (heap s)\<rparr>)) (block_ptr d) \<noteq> None"
    by (auto simp: block_at_update)
next
  fix x blk
  assume "block_at (heap (s\<lparr>heap := AList.update a (Obj_cell ob) (heap s)\<rparr>)) x = Some blk"
  then have "block_at (heap s) x = Some blk"
    by (simp add: block_at_update split: if_splits)
  from counted_count [OF c this]
  show "count blk = int (refs (handles (s\<lparr>heap := AList.update a (Obj_cell ob) (heap s)\<rparr>)) x)"
    by simp
qed

lemma counted_remove_obj:
  assumes c: "counted s" and b: "block_at (heap s) a = None"
  shows "counted (s\<lparr>heap := AList.delete a (heap s)\<rparr>)"
proof (rule countedI)
  fix h d
  assume "h < length (handles (s\<lparr>heap := AList.delete a (heap s)\<rparr>))"
    and "handles (s\<lparr>heap := AList.delete a (heap s)\<rparr>) ! h = Some d"
  then have "block_at (heap s) (block_ptr d) \<noteq> None"
    using counted_live [OF c, of h d] by simp
  with b show "block_at (heap (s\<lparr>heap := AList.delete a (heap s)\<rparr>)) (block_ptr d) \<noteq> None"
    by (auto simp: block_at_delete)
next
  fix x blk
  assume "block_at (heap (s\<lparr>heap := AList.delete a (heap s)\<rparr>)) x = Some blk"
  then have "block_at (heap s) x = Some blk"
    by (simp add: block_at_delete split: if_splits)
  from counted_count [OF c this]
  show "count blk = int (refs (handles (s\<lparr>heap := AList.delete a (heap s)\<rparr>)) x)"
    by simp
qed

lemma counted_store_raw:
  assumes c: "counted s" and b: "block_at (heap s) a = None"
  shows "counted (s\<lparr>heap := AList.update a (Raw_cell T) (heap s)\<rparr>)"
proof (rule countedI)
  fix h d
  assume "h < length (handles (s\<lparr>heap := AList.update a (Raw_cell T) (heap s)\<rparr>))"
    and "handles (s\<lparr>heap := AList.update a (Raw_cell T) (heap s)\<rparr>) ! h = Some d"
  then have "block_at (heap s) (block_ptr d) \<noteq> None"
    using counted_live [OF c, of h d] by simp
  with b show "block_at (heap (s\<lparr>heap := AList.update a (Raw_cell T) (heap s)\<rparr>)) (block_ptr d) \<noteq> None"
    by (auto simp: block_at_update)
next
  fix x blk
  assume "block_at (heap (s\<lparr>heap := AList.update a (Raw_cell T) (heap s)\<rparr>)) x = Some blk"
  then have "block_at (heap s) x = Some blk"
    by (simp add: block_at_update split: if_splits)
  from counted_count [OF c this]
  show "count blk = int (refs (handles (s\<lparr>heap := AList.update a (Raw_cell T) (heap s)\<rparr>)) x)"
    by simp
qed

lemma counted_store_block:
  assumes c: "counted s" and b: "block_at (heap s) a = None"
  shows "counted (s\<lparr>heap := AList.update a (Block_cell \<lparr>count = 0, data = p\<rparr>) (heap s)\<rparr>)"
proof (rule countedI)
  fix h d
  assume "h < length (handles (s\<lparr>heap := AList.update a (Block_cell \<lparr>count = 0, data = p\<rparr>) (heap s)\<rparr>))"
    and "handles (s\<lparr>heap := AList.update a (Block_cell \<lparr>count = 0, data = p\<rparr>) (heap s)\<rparr>) ! h = Some d"
  then have "block_at (heap s) (block_ptr d) \<noteq> None"
    using counted_live [OF c, of h d] by simp
  then show "block_at (heap (s\<lparr>heap := AList.update a (Block_cell \<lparr>count = 0, data = p\<rparr>) (heap s)\<rparr>))
      (block_ptr d) \<noteq> None"
    by (auto simp: block_at_update)
next
  fix x blk
  assume "block_at (heap (s\<lparr>heap := AList.update a (Block_cell \<lparr>count = 0, data = p\<rparr>) (heap s)\<rparr>)) x = Some blk"
  then have "(x = a \<and> count blk = 0) \<or> (x \<noteq> a \<and> block_at (heap s) x = Some blk)"
    by (auto simp: block_at_update split: if_splits)
  then show "count blk = int (refs (handles (s\<lparr>heap := AList.update a (Block_cell \<lparr>count = 0, data = p\<rparr>) (heap s)\<rparr>)) x)"
    using unnamed_outside [OF c b] counted_count [OF c, of x blk] by auto
qed

lemma counted_set_data:
  assumes c: "counted s" and b: "block_at (heap s) a = Some blk"
  shows "counted (s\<lparr>heap := AList.update a (Block_cell (blk\<lparr>data := p\<rparr>)) (heap s)\<rparr>)"
proof (rule countedI)
  fix h d
  assume "h < length (handles (s\<lparr>heap := AList.update a (Block_cell (blk\<lparr>data := p\<rparr>)) (heap s)\<rparr>))"
    and "handles (s\<lparr>heap := AList.update a (Block_cell (blk\<lparr>data := p\<rparr>)) (heap s)\<rparr>) ! h = Some d"
  then have "block_at (heap s) (block_ptr d) \<noteq> None"
    using counted_live [OF c, of h d] by simp
  then show "block_at (heap (s\<lparr>heap := AList.update a (Block_cell (blk\<lparr>data := p\<rparr>)) (heap s)\<rparr>))
      (block_ptr d) \<noteq> None"
    by (auto simp: block_at_update)
next
  fix x blk'
  assume "block_at (heap (s\<lparr>heap := AList.update a (Block_cell (blk\<lparr>data := p\<rparr>)) (heap s)\<rparr>)) x = Some blk'"
  then have "(x = a \<and> count blk' = count blk) \<or> (x \<noteq> a \<and> block_at (heap s) x = Some blk')"
    by (auto simp: block_at_update split: if_splits)
  then show "count blk' = int (refs (handles (s\<lparr>heap := AList.update a (Block_cell (blk\<lparr>data := p\<rparr>)) (heap s)\<rparr>)) x)"
    using counted_count [OF c b] counted_count [OF c, of x blk'] by auto
qed

lemma new_obj_counted:
  assumes c: "counted s" and n: "new_obj cs U ms s = Ok a s'"
  shows "counted s'"
proof -
  from n have s': "s' = s\<lparr>heap := AList.update a (Obj_cell \<lparr>dyn = U, members = ms\<rparr>) (heap s)\<rparr>"
    by (simp add: new_obj_Ok_iff)
  from new_obj_fresh(3) [OF n] have "block_at (heap s) a = None" by (rule block_at_fresh)
  with c show ?thesis unfolding s' by (rule counted_store_obj)
qed

lemma new_block_counted:
  assumes c: "counted s" and n: "new_block cs p s = Ok b s'"
  shows "counted s' \<and> block_at (heap s') b = Some \<lparr>count = 0, data = p\<rparr>"
proof -
  from n have s': "s' = s\<lparr>heap := AList.update b (Block_cell \<lparr>count = 0, data = p\<rparr>) (heap s)\<rparr>"
    and m: "heap_top cs (heap s) + 16 < 2 ^ 64" and b: "b = of_nat (heap_top cs (heap s))"
    by (simp_all add: new_block_Ok_iff)
  from fresh_below (1) [OF m] have "block_at (heap s) b = None"
    unfolding b by (rule block_at_fresh)
  with c have "counted s'" unfolding s' by (rule counted_store_block)
  then show ?thesis by (simp add: s' block_at_update)
qed

lemma ptr_of_descriptor_counted:
  assumes c: "counted s" and n: "ptr_of_descriptor d s = Ok h s'"
  shows "counted s' \<and> lookup_handle s' h = Some d"
proof -
  from n obtain blk where b: "block_at (heap s) (block_ptr d) = Some blk"
    and h: "h = length (handles s)"
    and s': "s' = s\<lparr>heap := AList.update (block_ptr d) (Block_cell (blk\<lparr>count := count blk + 1\<rparr>)) (heap s),
                 handles := handles s @ [Some d]\<rparr>"
    unfolding ptr_of_descriptor_Ok_iff by blast
  have "counted s'" unfolding s' using c b by (rule counted_acquire) simp
  then show ?thesis by (simp add: s' h)
qed

lemma ptr_of_block_counted:
  assumes c: "counted s" and n: "ptr_of_block b off op_p s = Ok h s'"
  shows "counted s' \<and> lookup_handle s' h = Some \<lparr>block_ptr = b, upcast_offset = off, op_ptr = op_p\<rparr>"
  using ptr_of_descriptor_counted [OF c, of "\<lparr>block_ptr = b, upcast_offset = off, op_ptr = op_p\<rparr>" h s'] n
  by (simp add: ptr_of_block_def ptr_of_descriptor_def)

lemma val_of_ptr_counted:
  assumes c: "counted s" and n: "val_of_ptr cs T U ss p s = Ok v s'"
  shows "counted s' \<and> lookup_handle s' (val_data v) \<noteq> None"
proof -
  from n obtain b s1 h where 1: "new_block cs p s = Ok b s1"
    and 2: "ptr_of_block b (compute_upcast_offset cs T U) U s1 = Ok h s'" and v: "val_data v = h"
    by (auto simp: val_of_ptr_def seq_Ok_iff ret_Ok_iff)
  from new_block_counted [OF c 1] have "counted s1" by simp
  from ptr_of_block_counted [OF this 2] v show ?thesis by simp
qed

lemma val_adopt_counted:
  assumes c: "counted s" and n: "val_adopt cs T ss p s = Ok v s'"
  shows "counted s' \<and> lookup_handle s' (val_data v) \<noteq> None"
proof -
  from n obtain b s1 h where 1: "new_block cs p s = Ok b s1"
    and 2: "ptr_of_block b 0 T s1 = Ok h s'" and v: "val_data v = h"
    by (auto simp: val_adopt_def seq_Ok_iff ret_Ok_iff)
  from new_block_counted [OF c 1] have "counted s1" by simp
  from ptr_of_block_counted [OF this 2] v show ?thesis by simp
qed

lemma val_of_value_counted:
  assumes c: "counted s" and n: "val_of_value cs T SmallStorageSize ss x s = Ok v s'"
  shows "counted s' \<and> lookup_handle s' (val_data v) \<noteq> None"
proof -
  from n obtain a s1 where 1: "new_obj cs T (copy_construct cs T x) s = Ok a s1"
    and 2: "val_adopt cs T ss a s1 = Ok v s'"
    by (auto simp: val_of_value_def construct_copy_def emplacement_ptr_def seq_Ok_iff)
  from val_adopt_counted [OF new_obj_counted [OF c 1] 2] show ?thesis .
qed

lemma val_of_rvalue_counted:
  assumes c: "counted s" and n: "val_of_rvalue cs T SmallStorageSize ss x s = Ok v s'"
  shows "counted s' \<and> lookup_handle s' (val_data v) \<noteq> None"
proof -
  from n obtain a ms s1 where 1: "new_obj cs T ms s = Ok a s1"
    and 2: "val_adopt cs T ss a s1 = Ok v s'"
    by (auto simp: val_of_rvalue_def construct_rvalue_def construct_move_def construct_copy_def
        emplacement_ptr_def seq_Ok_iff split: if_splits)
  from val_adopt_counted [OF new_obj_counted [OF c 1] 2] show ?thesis .
qed

lemma val_of_derived_counted:
  assumes c: "counted s" and n: "val_of_derived cs T U SmallStorageSize ss x s = Ok v s'"
  shows "counted s' \<and> lookup_handle s' (val_data v) \<noteq> None"
proof -
  from n obtain a s1 where 1: "new_obj cs U (copy_construct cs U x) s = Ok a s1"
    and 2: "val_of_ptr cs T U ss a s1 = Ok v s'"
    by (auto simp: val_of_derived_def construct_copy_def emplacement_ptr_def seq_Ok_iff)
  from val_of_ptr_counted [OF new_obj_counted [OF c 1] 2] show ?thesis .
qed

lemma val_of_derived_rvalue_counted:
  assumes c: "counted s" and n: "val_of_derived_rvalue cs T U SmallStorageSize ss x s = Ok v s'"
  shows "counted s' \<and> lookup_handle s' (val_data v) \<noteq> None"
proof -
  from n obtain a ms s1 where 1: "new_obj cs U ms s = Ok a s1"
    and 2: "val_of_ptr cs T U ss a s1 = Ok v s'"
    by (auto simp: val_of_derived_rvalue_def construct_rvalue_def construct_move_def
        construct_copy_def emplacement_ptr_def seq_Ok_iff split: if_splits)
  from val_of_ptr_counted [OF new_obj_counted [OF c 1] 2] show ?thesis .
qed

lemma ptr_clone_counted:
  assumes c: "counted s" and n: "ptr_clone cs this off nullptr s = Ok d' s'"
  shows "counted s'"
proof -
  from n obtain d blk ob where
    h: "lookup_handle s this = Some d"
    and b: "block_at (heap s) (block_ptr d) = Some blk"
    and ob: "map_of (heap s) (data blk) = Some (Obj_cell ob)"
    and m1: "heap_top cs (heap s) + max 1 (sizeof cs (op_ptr d)) < 2 ^ 64"
    and m2: "heap_top cs (AList.update (of_nat (heap_top cs (heap s)))
               (Obj_cell \<lparr>dyn = op_ptr d, members = copy_construct cs (op_ptr d) (members ob)\<rparr>)
               (heap s)) + 16 < 2 ^ 64"
    and dd: "d' = \<lparr>block_ptr = of_nat (heap_top cs (AList.update (of_nat (heap_top cs (heap s)))
               (Obj_cell \<lparr>dyn = op_ptr d, members = copy_construct cs (op_ptr d) (members ob)\<rparr>)
               (heap s))),
                 upcast_offset = upcast_offset d + off, op_ptr = op_ptr d\<rparr>"
    and s': "s' = s\<lparr>heap := AList.update (block_ptr d')
                  (Block_cell \<lparr>count = 0, data = of_nat (heap_top cs (heap s))\<rparr>)
                  (AList.update (of_nat (heap_top cs (heap s)))
                     (Obj_cell \<lparr>dyn = op_ptr d, members = copy_construct cs (op_ptr d) (members ob)\<rparr>)
                     (heap s))\<rparr>"
    unfolding ptr_clone_Ok_iff by blast
  have d': "block_ptr d' = of_nat (heap_top cs (AList.update (of_nat (heap_top cs (heap s)))
               (Obj_cell \<lparr>dyn = op_ptr d, members = copy_construct cs (op_ptr d) (members ob)\<rparr>)
               (heap s)))"
    by (simp add: dd)
  let ?a = "of_nat (heap_top cs (heap s)) :: addr"
  let ?o = "\<lparr>dyn = op_ptr d, members = copy_construct cs (op_ptr d) (members ob)\<rparr>"
  let ?s1 = "s\<lparr>heap := AList.update ?a (Obj_cell ?o) (heap s)\<rparr>"
  have "block_at (heap s) ?a = None"
    using fresh_below (1) [OF m1] by (rule block_at_fresh)
  with c have c1: "counted ?s1" by (rule counted_store_obj)
  have "block_at (heap ?s1) (block_ptr d') = None"
    unfolding d' using fresh_below (1) [OF m2] by (simp add: block_at_fresh)
  from counted_store_block [OF c1 this, of ?a] show ?thesis by (simp add: s')
qed

lemma val_copy_counted:
  assumes c: "counted s" and n: "val_copy cs SmallStorageSize ss other s = Ok v s'"
  shows "counted s' \<and> lookup_handle s' (val_data v) \<noteq> None"
proof -
  from n obtain d s1 h where 1: "ptr_clone cs (val_data other) 0 nullptr s = Ok d s1"
    and 2: "ptr_of_descriptor d s1 = Ok h s'" and v: "val_data v = h"
    by (auto simp: val_copy_def emplacement_ptr_def seq_Ok_iff ret_Ok_iff)
  from ptr_of_descriptor_counted [OF ptr_clone_counted [OF c 1] 2] v show ?thesis by simp
qed

lemma val_convert_counted:
  assumes c: "counted s" and n: "val_convert cs T U SmallStorageSize ss other s = Ok v s'"
  shows "counted s' \<and> lookup_handle s' (val_data v) \<noteq> None"
proof -
  from n obtain d s1 h where 1: "ptr_clone cs (val_data other) (compute_upcast_offset cs T U) nullptr s = Ok d s1"
    and 2: "ptr_of_descriptor d s1 = Ok h s'" and v: "val_data v = h"
    by (auto simp: val_convert_def emplacement_ptr_def seq_Ok_iff ret_Ok_iff get_size_of_data_def
        size_op_def op_def get_descriptor_Ok_iff)
  from ptr_of_descriptor_counted [OF ptr_clone_counted [OF c 1] 2] v show ?thesis by simp
qed

lemma val_clone_counted:
  assumes c: "counted s" and n: "val_clone cs this s = Ok p s'"
  shows "counted s'"
proof -
  from n obtain d where "ptr_clone cs (val_data this) 0 nullptr s = Ok d s'"
    by (auto simp: val_clone_def seq_Ok_iff load_block_Ok ret_Ok_iff)
  with c show ?thesis by (rule ptr_clone_counted)
qed

lemma val_dtor_eval:
  assumes "lookup_handle s (val_data this) = Some d"
    and "block_at (heap s) (block_ptr d) = Some blk"
  shows "val_dtor cs this s =
      (if count blk \<noteq> 1
       then throw Abort (s\<lparr>heap := AList.update (block_ptr d) (Block_cell (blk\<lparr>data := nullptr\<rparr>)) (heap s)\<rparr>)
       else seq (if data blk = small_storage this then destruct cs (op_ptr d) (data blk)
              else delete_op cs (op_ptr d) (data blk)) (\<lambda>_. ptr_dtor (val_data this))
            (s\<lparr>heap := AList.update (block_ptr d) (Block_cell (blk\<lparr>data := nullptr\<rparr>)) (heap s)\<rparr>))"
proof -
  let ?s1 = "s\<lparr>heap := AList.update (block_ptr d) (Block_cell (blk\<lparr>data := nullptr\<rparr>)) (heap s)\<rparr>"
  have x: "exchange_data (block_ptr d) nullptr s = Ok (data blk) ?s1"
    using assms(2) by (simp add: exchange_data_def seq_def load_block_eval store_def ret_def)
  have c: "load_count (block_ptr d) ?s1 = Ok (count blk) ?s1"
    by (simp add: load_count_def seq_def load_block_eval block_at_update ret_def)
  show ?thesis
    using assms(1) x c by (simp add: val_dtor_def seq_Ok get_descriptor_eval)
qed

lemma val_dtor_counted:
  assumes c: "counted s" and n: "val_dtor cs this s = Ok u s'"
  shows "counted s'"
proof -
  from n obtain d blk where h: "lookup_handle s (val_data this) = Some d"
    and b: "block_at (heap s) (block_ptr d) = Some blk"
    by (auto simp: val_dtor_def seq_Ok_iff get_descriptor_Ok_iff exchange_data_def load_block_Ok)
  let ?s1 = "s\<lparr>heap := AList.update (block_ptr d) (Block_cell (blk\<lparr>data := nullptr\<rparr>)) (heap s)\<rparr>"
  have c1: "counted ?s1" using c b by (rule counted_set_data)
  from val_dtor_eval [OF h b, of cs] n
  have one: "count blk = 1" by (auto simp: throw_def split: if_splits)
  define m where "m = (if data blk = small_storage this then DESTRUCT else DELETE)"
  from val_dtor_eval [OF h b, of cs] n one
  have r: "seq (op cs (op_ptr d) m (data blk) nullptr) (\<lambda>_. ptr_dtor (val_data this)) ?s1 = Ok u s'"
    by (auto simp: m_def destruct_def delete_op_def seq_def ret_def split: result.splits)
  then obtain s2 where 2: "op cs (op_ptr d) m (data blk) nullptr ?s1 = Ok 0 s2"
    and 3: "ptr_dtor (val_data this) s2 = Ok u s'"
    by (auto simp: seq_Ok_iff op_def m_def ret_Ok_iff split: if_splits)
  from 2 have "s2 = ?s1 \<or> (\<exists>ob. map_of (heap ?s1) (data blk) = Some (Obj_cell ob)
      \<and> (s2 = ?s1\<lparr>heap := AList.delete (data blk) (heap ?s1)\<rparr>
         \<or> s2 = ?s1\<lparr>heap := AList.update (data blk) (Raw_cell (dyn ob)) (heap ?s1)\<rparr>))"
    by (auto simp: op_def m_def delete_obj_def destroy_obj_def seq_Ok_iff ret_Ok_iff load_obj_Ok_iff
        release_Ok_iff store_Ok_iff split: if_splits)
  then have c2: "counted s2"
  proof
    assume "s2 = ?s1"
    with c1 show ?thesis by simp
  next
    assume "\<exists>ob. map_of (heap ?s1) (data blk) = Some (Obj_cell ob)
      \<and> (s2 = ?s1\<lparr>heap := AList.delete (data blk) (heap ?s1)\<rparr>
         \<or> s2 = ?s1\<lparr>heap := AList.update (data blk) (Raw_cell (dyn ob)) (heap ?s1)\<rparr>)"
    then obtain ob where o: "map_of (heap ?s1) (data blk) = Some (Obj_cell ob)"
      and s2: "s2 = ?s1\<lparr>heap := AList.delete (data blk) (heap ?s1)\<rparr>
         \<or> s2 = ?s1\<lparr>heap := AList.update (data blk) (Raw_cell (dyn ob)) (heap ?s1)\<rparr>" by blast
    from o have n: "block_at (heap ?s1) (data blk) = None" by (simp add: block_at_def)
    from s2 show ?thesis
    proof
      assume "s2 = ?s1\<lparr>heap := AList.delete (data blk) (heap ?s1)\<rparr>"
      with counted_remove_obj [OF c1 n] show ?thesis by simp
    next
      assume "s2 = ?s1\<lparr>heap := AList.update (data blk) (Raw_cell (dyn ob)) (heap ?s1)\<rparr>"
      with counted_store_raw [OF c1 n] show ?thesis by simp
    qed
  qed
  from 3 obtain dd blkd where
    t: "lookup_handle s2 (val_data this) = Some dd" "block_at (heap s2) (block_ptr dd) = Some blkd"
      "s' = s2\<lparr>heap := drop_ref (block_ptr dd) blkd (heap s2),
                 handles := (handles s2)[val_data this := None]\<rparr>"
    unfolding ptr_dtor_Ok_iff by blast
  show ?thesis unfolding t(3) using c2 t(1,2) by (rule counted_drop)
qed

section \<open>The block constructor\<close>

text \<open>
  Claim C6. The constructor of a block throws \<^verbatim>\<open>std::invalid_argument\<close> on a null data
  address, so \<^verbatim>\<open>new block(nullptr)\<close> never yields a block (it leaves the state as it was,
  with that exception or, when memory is exhausted, \<^verbatim>\<open>std::bad_alloc\<close>); a block that was
  constructed holds the non-null address it was given, with counter zero.
\<close>

theorem block_null_invalid_argument:
  "block_ctor nullptr = Inl Invalid_Argument
   \<and> (\<forall>d b. block_ctor d = Inr b \<longrightarrow> d \<noteq> nullptr \<and> data b = d \<and> count b = 0)
   \<and> new_block cs nullptr s =
       (if heap_top cs (heap s) + 16 < 2 ^ 64 then Fail Invalid_Argument s else Fail Bad_Alloc s)
   \<and> (\<forall>d a s'. new_block cs d s = Ok a s' \<longrightarrow>
         d \<noteq> nullptr \<and> map_of (heap s') a = Some (Block_cell \<lparr>count = 0, data = d\<rparr>))"
  by (auto simp: block_ctor_def new_block_def seq_def operator_new_def Let_def throw_def
      store_def ret_def update_conv' split: if_splits)

theorem block_null_invalid_argument_witness:
  "new_block shapes 1 empty_state =
     Ok 1 \<lparr>heap = [(1, Block_cell \<lparr>count = 0, data = 1\<rparr>)], handles = []\<rparr>
   \<and> (1 :: addr) \<noteq> nullptr
   \<and> map_of [(1 :: addr, Block_cell \<lparr>count = 0, data = 1\<rparr>)] 1 =
       Some (Block_cell \<lparr>count = 0, data = 1\<rparr>)
   \<and> new_block shapes nullptr empty_state = Fail Invalid_Argument empty_state"
  using block_null_invalid_argument [of shapes empty_state]
  by (simp add: block_ctor_def new_block_def seq_def operator_new_def Let_def throw_def
      store_def ret_def heap_top_def empty_state_def)

section \<open>Storage selection\<close>

text \<open>
  Claim C8. \<^verbatim>\<open>emplacement_ptr\<close> returns null for every \<open>SmallStorageSize\<close> and every size,
  so both \<^verbatim>\<open>construct\<close> overloads are a \<^verbatim>\<open>new U\<close> from their argument, the copy and the converting
  constructors clone with a null placement, a clone with a null placement is a
  \<^verbatim>\<open>new\<close> of the copy, and the address of the stored value is the one \<^verbatim>\<open>operator new\<close> hands
  out, not yet in use: the inline buffer is never written.
\<close>

theorem storage_selection_short_circuited:
  "emplacement_ptr SmallStorageSize ss dataSize = nullptr
   \<and> construct_copy cs SmallStorageSize ss U x = new_obj cs U (copy_construct cs U x)
   \<and> construct_move cs SmallStorageSize ss U x = new_obj cs U (move_construct cs U x)
   \<and> construct_rvalue cs SmallStorageSize ss U x =
       new_obj cs U (if move_constructible cs U then move_construct cs U x else copy_construct cs U x)
   \<and> val_copy cs SmallStorageSize ss other =
       seq (ptr_clone cs (val_data other) 0 nullptr) (\<lambda>d.
       seq (ptr_of_descriptor d) (\<lambda>h. ret \<lparr>small_storage = ss, val_data = h\<rparr>))
   \<and> val_convert cs T U SmallStorageSize ss other =
       seq (get_size_of_data cs (val_data other)) (\<lambda>n.
       seq (ptr_clone cs (val_data other) (compute_upcast_offset cs T U) nullptr) (\<lambda>d.
       seq (ptr_of_descriptor d) (\<lambda>h. ret \<lparr>small_storage = ss, val_data = h\<rparr>)))
   \<and> clone cs U value nullptr =
       (if copy_constructible cs U
        then seq (load_obj value) (\<lambda>ob. new_obj cs U (copy_construct cs U (members ob)))
        else throw Logic_Error)
   \<and> (\<forall>ms a s s'. new_obj cs U ms s = Ok a s' \<longrightarrow>
         a = of_nat (heap_top cs (heap s)) \<and> a \<noteq> nullptr \<and> a \<notin> fst ` set (heap s)
         \<and> map_of (heap s') a = Some (Obj_cell \<lparr>dyn = U, members = ms\<rparr>))"
proof -
  have e: "\<And>n. emplacement_ptr SmallStorageSize ss n = nullptr"
    by (simp add: emplacement_ptr_def)
  have c: "clone cs U value nullptr =
       (if copy_constructible cs U
        then seq (load_obj value) (\<lambda>ob. new_obj cs U (copy_construct cs U (members ob)))
        else throw Logic_Error)"
    by (simp add: clone_def op_def clone_impl_def)
  have n: "\<forall>ms a s s'. new_obj cs U ms s = Ok a s' \<longrightarrow>
         a = of_nat (heap_top cs (heap s)) \<and> a \<noteq> nullptr \<and> a \<notin> fst ` set (heap s)
         \<and> map_of (heap s') a = Some (Obj_cell \<lparr>dyn = U, members = ms\<rparr>)"
  proof (intro allI impI)
    fix ms a s s'
    assume h: "new_obj cs U ms s = Ok a s'"
    from new_obj_fresh [OF h]
    show "a = of_nat (heap_top cs (heap s)) \<and> a \<noteq> nullptr \<and> a \<notin> fst ` set (heap s)
         \<and> map_of (heap s') a = Some (Obj_cell \<lparr>dyn = U, members = ms\<rparr>)"
      by simp
  qed
  show ?thesis
    using c n
    by (simp add: e construct_copy_def construct_move_def construct_rvalue_def val_copy_def
        val_convert_def)
qed


theorem storage_selection_short_circuited_witness:
  "new_obj shapes Circle [5] empty_state =
      Ok 1 \<lparr>heap = [(1, Obj_cell \<lparr>dyn = Circle, members = [5]\<rparr>)], handles = []\<rparr>
   \<and> (1 :: addr) = of_nat (heap_top shapes (heap empty_state))
   \<and> (1 :: addr) \<notin> fst ` set (heap empty_state)
   \<and> construct_copy shapes 16 4096 Circle [5] empty_state =
      Ok 1 \<lparr>heap = [(1, Obj_cell \<lparr>dyn = Circle, members = [5]\<rparr>)], handles = []\<rparr>"
proof -
  have n: "new_obj shapes Circle [5] empty_state =
      Ok 1 \<lparr>heap = [(1, Obj_cell \<lparr>dyn = Circle, members = [5]\<rparr>)], handles = []\<rparr>"
    by (simp add: model_defs example_defs)
  from storage_selection_short_circuited [where cs = shapes and U = Circle
      and SmallStorageSize = 16 and ss = 4096 and x = "[5]"] n
  show ?thesis by (auto simp: shapes_def)
qed

section \<open>Destruction of a container\<close>

text \<open>
  Claim C2. For a live container, the destructor first exchanges the data pointer of the
  block for null; with a counter other than one it then aborts, in the state where the
  pointer is already null; with counter one it calls the dispatcher with \<open>DESTRUCT\<close>
  when the value lay in the inline buffer and with \<open>DELETE\<close> otherwise, and then
  destroys the member handle. On a stored value \<open>DESTRUCT\<close> ends its life and leaves its
  storage in place, \<open>DELETE\<close> also returns the storage to the allocator; so after the
  destructor of a container with counter one the block and the handle are gone, and
  the address of the value holds empty storage when it was the inline buffer and
  nothing otherwise.
\<close>

theorem val_dtor_detaches_then_checks:
  assumes "lookup_handle s (val_data this) = Some d"
    and "block_at (heap s) (block_ptr d) = Some blk"
  shows "exchange_data (block_ptr d) nullptr s =
           Ok (data blk) (s\<lparr>heap := AList.update (block_ptr d) (Block_cell (blk\<lparr>data := nullptr\<rparr>)) (heap s)\<rparr>)
    \<and> (count blk \<noteq> 1 \<longrightarrow>
         val_dtor cs this s =
           Fail Abort (s\<lparr>heap := AList.update (block_ptr d) (Block_cell (blk\<lparr>data := nullptr\<rparr>)) (heap s)\<rparr>))
    \<and> (count blk = 1 \<longrightarrow> data blk = small_storage this \<longrightarrow>
         val_dtor cs this s =
           seq (op cs (op_ptr d) DESTRUCT (data blk) nullptr) (\<lambda>_. ptr_dtor (val_data this))
             (s\<lparr>heap := AList.update (block_ptr d) (Block_cell (blk\<lparr>data := nullptr\<rparr>)) (heap s)\<rparr>))
    \<and> (count blk = 1 \<longrightarrow> data blk \<noteq> small_storage this \<longrightarrow>
         val_dtor cs this s =
           seq (op cs (op_ptr d) DELETE (data blk) nullptr) (\<lambda>_. ptr_dtor (val_data this))
             (s\<lparr>heap := AList.update (block_ptr d) (Block_cell (blk\<lparr>data := nullptr\<rparr>)) (heap s)\<rparr>))
    \<and> (\<forall>ob. data blk \<noteq> nullptr \<and> map_of (heap s) (data blk) = Some (Obj_cell ob) \<longrightarrow>
         op cs (op_ptr d) DESTRUCT (data blk) nullptr s =
           Ok 0 (s\<lparr>heap := AList.update (data blk) (Raw_cell (dyn ob)) (heap s)\<rparr>)
         \<and> op cs (op_ptr d) DELETE (data blk) nullptr s =
           Ok 0 (s\<lparr>heap := AList.delete (data blk) (heap s)\<rparr>)
         \<and> (count blk = 1 \<longrightarrow> data blk = small_storage this \<longrightarrow>
              val_dtor cs this s =
                Ok () (s\<lparr>heap := AList.update (data blk) (Raw_cell (dyn ob))
                                   (AList.delete (block_ptr d) (heap s)),
                         handles := (handles s)[val_data this := None]\<rparr>))
         \<and> (count blk = 1 \<longrightarrow> data blk \<noteq> small_storage this \<longrightarrow>
              val_dtor cs this s =
                Ok () (s\<lparr>heap := AList.delete (data blk) (AList.delete (block_ptr d) (heap s)),
                         handles := (handles s)[val_data this := None]\<rparr>)))"
proof -
  let ?bp = "block_ptr d" and ?v = "data blk"
  let ?s1 = "s\<lparr>heap := AList.update ?bp (Block_cell (blk\<lparr>data := nullptr\<rparr>)) (heap s)\<rparr>"
  have x: "exchange_data ?bp nullptr s = Ok ?v ?s1"
    using assms(2) by (simp add: exchange_data_def seq_def load_block_eval store_def ret_def)
  note v = val_dtor_eval [OF assms, of cs]
  have first: "(count blk \<noteq> 1 \<longrightarrow> val_dtor cs this s = Fail Abort ?s1)
    \<and> (count blk = 1 \<longrightarrow> ?v = small_storage this \<longrightarrow>
         val_dtor cs this s =
           seq (op cs (op_ptr d) DESTRUCT ?v nullptr) (\<lambda>_. ptr_dtor (val_data this)) ?s1)
    \<and> (count blk = 1 \<longrightarrow> ?v \<noteq> small_storage this \<longrightarrow>
         val_dtor cs this s =
           seq (op cs (op_ptr d) DELETE ?v nullptr) (\<lambda>_. ptr_dtor (val_data this)) ?s1)"
    using v by (simp add: throw_def destruct_def delete_op_def seq_def ret_def split: result.splits)
  have second: "op cs (op_ptr d) DESTRUCT ?v nullptr s =
           Ok 0 (s\<lparr>heap := AList.update ?v (Raw_cell (dyn ob)) (heap s)\<rparr>)
         \<and> op cs (op_ptr d) DELETE ?v nullptr s = Ok 0 (s\<lparr>heap := AList.delete ?v (heap s)\<rparr>)
         \<and> (count blk = 1 \<longrightarrow> ?v = small_storage this \<longrightarrow>
              val_dtor cs this s =
                Ok () (s\<lparr>heap := AList.update ?v (Raw_cell (dyn ob)) (AList.delete ?bp (heap s)),
                         handles := (handles s)[val_data this := None]\<rparr>))
         \<and> (count blk = 1 \<longrightarrow> ?v \<noteq> small_storage this \<longrightarrow>
              val_dtor cs this s =
                Ok () (s\<lparr>heap := AList.delete ?v (AList.delete ?bp (heap s)),
                         handles := (handles s)[val_data this := None]\<rparr>))"
    if nn: "?v \<noteq> nullptr" and o: "map_of (heap s) ?v = Some (Obj_cell ob)" for ob
  proof -
    from o assms(2) have ne: "?v \<noteq> ?bp" "?bp \<noteq> ?v"
      by (auto simp: block_at_def split: option.splits cell.splits)
    have o1: "map_of (heap ?s1) ?v = Some (Obj_cell ob)"
      using o ne by (simp add: update_conv')
    have destroy: "op cs T DESTRUCT ?v nullptr u =
        Ok 0 (u\<lparr>heap := AList.update ?v (Raw_cell (dyn ob)) (heap u)\<rparr>)"
      if "map_of (heap u) ?v = Some (Obj_cell ob)" for u T
      using that by (simp add: op_def destroy_obj_def seq_def load_obj_def store_def ret_def)
    have delete: "op cs T DELETE ?v nullptr u = Ok 0 (u\<lparr>heap := AList.delete ?v (heap u)\<rparr>)"
      if "map_of (heap u) ?v = Some (Obj_cell ob)" for u T
      using that nn by (simp add: op_def delete_obj_def seq_def load_obj_def release_def ret_def)
    have dtor: "ptr_dtor (val_data this) u =
        Ok () (u\<lparr>heap := AList.delete ?bp (heap u), handles := (handles u)[val_data this := None]\<rparr>)"
      if "lookup_handle u (val_data this) = Some d"
        and "block_at (heap u) ?bp = Some (blk\<lparr>data := nullptr\<rparr>)" and "count blk = 1" for u
      using that by (simp add: ptr_dtor_Ok_iff drop_ref_def)
    have inl: "val_dtor cs this s =
        Ok () (s\<lparr>heap := AList.update ?v (Raw_cell (dyn ob)) (AList.delete ?bp (heap s)),
                 handles := (handles s)[val_data this := None]\<rparr>)"
      if one: "count blk = 1" and i: "?v = small_storage this"
    proof -
      let ?s2 = "?s1\<lparr>heap := AList.update ?v (Raw_cell (dyn ob)) (heap ?s1)\<rparr>"
      have "lookup_handle ?s2 (val_data this) = Some d" using assms(1) by simp
      moreover have "block_at (heap ?s2) ?bp = Some (blk\<lparr>data := nullptr\<rparr>)"
        using ne by (simp add: block_at_update)
      ultimately have "ptr_dtor (val_data this) ?s2 =
          Ok () (?s2\<lparr>heap := AList.delete ?bp (heap ?s2), handles := (handles ?s2)[val_data this := None]\<rparr>)"
        using one by (rule dtor)
      with first one i destroy [OF o1, of "op_ptr d"] ne show ?thesis
        by (simp add: seq_def delete_update delete_update_same)
    qed
    have out: "val_dtor cs this s =
        Ok () (s\<lparr>heap := AList.delete ?v (AList.delete ?bp (heap s)),
                 handles := (handles s)[val_data this := None]\<rparr>)"
      if one: "count blk = 1" and i: "?v \<noteq> small_storage this"
    proof -
      let ?s2 = "?s1\<lparr>heap := AList.delete ?v (heap ?s1)\<rparr>"
      have "lookup_handle ?s2 (val_data this) = Some d" using assms(1) by simp
      moreover have "block_at (heap ?s2) ?bp = Some (blk\<lparr>data := nullptr\<rparr>)"
        using ne by (simp add: block_at_update block_at_delete)
      ultimately have "ptr_dtor (val_data this) ?s2 =
          Ok () (?s2\<lparr>heap := AList.delete ?bp (heap ?s2), handles := (handles ?s2)[val_data this := None]\<rparr>)"
        using one by (rule dtor)
      with first one i delete [OF o1, of "op_ptr d"] ne show ?thesis
        by (simp add: seq_def delete_update delete_update_same delete_twist [of ?bp ?v])
    qed
    from destroy [OF o] delete [OF o] inl out show ?thesis by blast
  qed
  from x first second show ?thesis by blast
qed

theorem val_dtor_detaches_then_checks_witness:
  "val_dtor shapes circle_val circle_state = Ok () \<lparr>heap = [], handles = [None]\<rparr>
   \<and> val_dtor shapes inline_val circle_state =
       Ok () \<lparr>heap = [(1, Raw_cell Circle)], handles = [None]\<rparr>
   \<and> val_dtor shapes circle_val watched_state =
       Fail Abort (watched_state\<lparr>heap := [(1, Obj_cell \<lparr>dyn = Circle, members = [5]\<rparr>),
              (17, Block_cell \<lparr>count = 2, data = nullptr\<rparr>)]\<rparr>)"
proof -
  let ?d = "\<lparr>block_ptr = 17, upcast_offset = 0, op_ptr = Circle\<rparr>"
  have h1: "lookup_handle circle_state (val_data circle_val) = Some ?d"
    and h2: "lookup_handle circle_state (val_data inline_val) = Some ?d"
    and h3: "lookup_handle watched_state (val_data circle_val) = Some ?d"
    by (simp_all add: lookup_handle_def example_defs)
  have b1: "block_at (heap circle_state) (block_ptr ?d) = Some \<lparr>count = 1, data = 1\<rparr>"
    and b3: "block_at (heap watched_state) (block_ptr ?d) = Some \<lparr>count = 2, data = 1\<rparr>"
    by (simp_all add: block_at_def example_defs)
  let ?blk = "\<lparr>count = 1, data = (1 :: addr)\<rparr>"
  have o: "data ?blk \<noteq> nullptr
      \<and> map_of (heap circle_state) (data ?blk) = Some (Obj_cell \<lparr>dyn = Circle, members = [5]\<rparr>)"
    by (simp add: example_defs)
  have c: "count ?blk = 1" "data ?blk \<noteq> small_storage circle_val"
    "data ?blk = small_storage inline_val" "count \<lparr>count = 2, data = (1 :: addr)\<rparr> \<noteq> 1"
    by (simp_all add: example_defs)
  have r1: "val_dtor shapes circle_val circle_state =
      Ok () (circle_state\<lparr>heap := AList.delete (data ?blk) (AList.delete (block_ptr ?d) (heap circle_state)),
               handles := (handles circle_state)[val_data circle_val := None]\<rparr>)"
    using val_dtor_detaches_then_checks [OF h1 b1, of shapes] o c by blast
  have r2: "val_dtor shapes inline_val circle_state =
      Ok () (circle_state\<lparr>heap := AList.update (data ?blk)
                 (Raw_cell (dyn \<lparr>dyn = Circle, members = [5]\<rparr>)) (AList.delete (block_ptr ?d) (heap circle_state)),
               handles := (handles circle_state)[val_data inline_val := None]\<rparr>)"
    using val_dtor_detaches_then_checks [OF h2 b1, of shapes] o c by blast
  have r3: "val_dtor shapes circle_val watched_state =
      Fail Abort (watched_state\<lparr>heap := AList.update (block_ptr ?d)
        (Block_cell (\<lparr>count = 2, data = 1\<rparr>\<lparr>data := nullptr\<rparr>)) (heap watched_state)\<rparr>)"
    using val_dtor_detaches_then_checks [OF h3 b3, of shapes] c by blast
  from r1 r2 r3 show ?thesis
    by (simp add: example_defs)
qed

section \<open>Stored types that cannot be copied\<close>

text \<open>
  Claim C7. When the stored class \<open>U\<close> is not copy-constructible, the dispatcher's clone
  operation throws \<^verbatim>\<open>std::logic_error\<close> whatever it is given, and so do the copy constructor,
  the converting constructor and \<^verbatim>\<open>clone()\<close> of a live container holding a \<open>U\<close>, leaving the
  state as it was. Constructing a container of such a class, from an rvalue when the class
  can be moved or from a pointer it adopts, succeeds whenever \<^verbatim>\<open>operator new\<close> has the
  memory.
\<close>

theorem uncopyable_fails_at_clone:
  assumes "\<not> copy_constructible cs U"
  shows "op cs U CLONE value placement s = Fail Logic_Error s
    \<and> (\<forall>v d blk. lookup_handle s (val_data v) = Some d \<and> op_ptr d = U
           \<and> block_at (heap s) (block_ptr d) = Some blk \<longrightarrow>
         val_copy cs SmallStorageSize ss v s = Fail Logic_Error s
         \<and> val_clone cs v s = Fail Logic_Error s
         \<and> val_convert cs T U' SmallStorageSize ss v s = Fail Logic_Error s)
    \<and> (move_constructible cs U \<and> heap_top cs (heap s) + max 1 (sizeof cs U) + 16 < 2 ^ 64 \<longrightarrow>
         (\<exists>v s' d. val_of_rvalue cs U SmallStorageSize ss x s = Ok v s'
            \<and> lookup_handle s' (val_data v) = Some d \<and> op_ptr d = U)
         \<and> (\<exists>v s' d. val_of_derived_rvalue cs T U SmallStorageSize ss x s = Ok v s'
            \<and> lookup_handle s' (val_data v) = Some d \<and> op_ptr d = U))
    \<and> (p \<noteq> nullptr \<and> heap_top cs (heap s) + 16 < 2 ^ 64 \<longrightarrow>
         (\<exists>v s' d. val_adopt cs U ss p s = Ok v s'
            \<and> lookup_handle s' (val_data v) = Some d \<and> op_ptr d = U))"
proof -
  have a: "op cs U CLONE value placement s = Fail Logic_Error s"
    using assms by (simp add: op_def clone_impl_def throw_def)
  have b: "val_copy cs SmallStorageSize ss v s = Fail Logic_Error s
         \<and> val_clone cs v s = Fail Logic_Error s
         \<and> val_convert cs T U' SmallStorageSize ss v s = Fail Logic_Error s"
    if "lookup_handle s (val_data v) = Some d" "op_ptr d = U"
      "block_at (heap s) (block_ptr d) = Some blk" for v d blk
  proof -
    from assms that have n: "\<not> copy_constructible cs (op_ptr d)" by simp
    have g: "get_size_of_data cs (val_data v) s = Ok (of_nat (sizeof cs U)) s"
      using that by (simp add: get_size_of_data_def seq_def get_descriptor_eval size_op_def op_def ret_def)
    show ?thesis
      using ptr_clone_uncopyable [OF n that(1) that(3)] g
      by (simp add: val_copy_def val_clone_def val_convert_def seq_Fail seq_Ok)
  qed
  have c: "(\<exists>v s' d. val_of_rvalue cs U SmallStorageSize ss x s = Ok v s'
            \<and> lookup_handle s' (val_data v) = Some d \<and> op_ptr d = U)
         \<and> (\<exists>v s' d. val_of_derived_rvalue cs T U SmallStorageSize ss x s = Ok v s'
            \<and> lookup_handle s' (val_data v) = Some d \<and> op_ptr d = U)"
    if mv: "move_constructible cs U" and m: "heap_top cs (heap s) + max 1 (sizeof cs U) + 16 < 2 ^ 64"
  proof -
    from new_obj_then [OF m] obtain a s1 where
      n: "new_obj cs U (move_construct cs U x) s = Ok a s1" "a \<noteq> nullptr"
        "heap_top cs (heap s1) + 16 < 2 ^ 64"
      by blast
    have cm: "construct_rvalue cs SmallStorageSize ss U x s = Ok a s1"
      using n(1) mv by (simp add: construct_rvalue_def construct_move_def emplacement_ptr_def)
    from val_adopt_succeeds [OF n(2,3)] val_of_ptr_succeeds [OF n(2,3)] cm
    show ?thesis
      by (simp add: val_of_rvalue_def val_of_derived_rvalue_def seq_Ok)
  qed
  from a b c val_adopt_succeeds show ?thesis by blast
qed


theorem uncopyable_fails_at_clone_witness:
  "\<not> copy_constructible shapes Token
   \<and> move_constructible shapes Token
   \<and> heap_top shapes (heap empty_state) + max 1 (sizeof shapes Token) + 16 < 2 ^ 64
   \<and> val_of_rvalue shapes Token 8 4096 [7] empty_state = Ok token_val token_state
   \<and> val_copy shapes 8 8192 token_val token_state = Fail Logic_Error token_state
   \<and> val_clone shapes token_val token_state = Fail Logic_Error token_state"
proof -
  have n: "\<not> copy_constructible shapes Token" by (simp add: shapes_def)
  have mv: "move_constructible shapes Token
      \<and> heap_top shapes (heap empty_state) + max 1 (sizeof shapes Token) + 16 < 2 ^ 64"
    by (simp add: shapes_def empty_state_def heap_top_def)
  have h: "lookup_handle token_state (val_data token_val) =
      Some \<lparr>block_ptr = 9, upcast_offset = 0, op_ptr = Token\<rparr>
      \<and> op_ptr \<lparr>block_ptr = 9, upcast_offset = 0, op_ptr = Token\<rparr> = Token
      \<and> block_at (heap token_state) (block_ptr \<lparr>block_ptr = 9, upcast_offset = 0, op_ptr = Token\<rparr>)
         = Some \<lparr>count = 1, data = 1\<rparr>"
    by (simp add: lookup_handle_def block_at_def example_defs)
  from uncopyable_fails_at_clone [OF n, where s = token_state and SmallStorageSize = 8 and ss = 8192]
    uncopyable_fails_at_clone [OF n, where s = empty_state and SmallStorageSize = 8 and ss = 4096
      and x = "[7]"]
    h n mv token_made
  show ?thesis by blast
qed

section \<open>The counter and the observers\<close>

text \<open>
  Claim C5. Take a state in which the counters are right, a live container, and any
  sequence of constructions, assignments and destructions of observer handles that
  does not assign to or destroy the container's own member handle and runs to its end.
  Then after every number \<open>n\<close> of these operations the container is still bound to its
  block, the block is live, and its counter is the number of live external handles that
  name it plus one; so it is not negative.
\<close>

theorem counter_is_observers_plus_one:
  assumes c: "counted s" and v: "lookup_handle s (val_data v) = Some d"
    and t: "val_data v \<notin> set (concat (map touched ops))"
    and r: "run_ops cs ops s = Ok u s_end"
  shows "\<exists>s' blk. run_ops cs (take n ops) s = Ok () s'
     \<and> lookup_handle s' (val_data v) = Some d
     \<and> block_at (heap s') (block_ptr d) = Some blk
     \<and> count blk = int (observers s' v (block_ptr d)) + 1
     \<and> 0 \<le> count blk"
proof -
  from run_ops_take [OF r] obtain s' where s': "run_ops cs (take n ops) s = Ok () s'" by blast
  have "set (concat (map touched (take n ops))) \<subseteq> set (concat (map touched ops))"
    using set_take_subset [of n ops] by auto
  with t have t': "val_data v \<notin> set (concat (map touched (take n ops)))" by blast
  from run_ops_counted [OF c v t' s'] have c': "counted s'" and v': "lookup_handle s' (val_data v) = Some d"
    by simp_all
  from v' have lt: "val_data v < length (handles s')" "handles s' ! val_data v = Some d"
    by (simp_all add: lookup_handle_Some_iff)
  from counted_live [OF c' lt] obtain blk where blk: "block_at (heap s') (block_ptr d) = Some blk"
    by blast
  have cnt: "count blk = int (refs (handles s') (block_ptr d))"
    using c' blk by (rule counted_count)
  have "int (observers s' v (block_ptr d)) = int (refs (handles s') (block_ptr d)) - 1"
    using refs_update [OF lt(1), of None "block_ptr d"] lt(2) by (simp add: observers_def)
  with cnt have "count blk = int (observers s' v (block_ptr d)) + 1" by simp
  with s' v' blk show ?thesis by auto
qed

lemma circle_counted: "counted circle_state"
  by (simp add: counted_def no_dangling_def circle_state_def block_at_def refs_def points_to_def)

theorem counter_is_observers_plus_one_witness:
  "counted circle_state
   \<and> lookup_handle circle_state (val_data circle_val) =
       Some \<lparr>block_ptr = 17, upcast_offset = 0, op_ptr = Circle\<rparr>
   \<and> val_data circle_val \<notin> set (concat (map touched
        [Of_val Shape Shape circle_val, Copy 1, Assign 1 2, Destroy 2, Destroy 1]))
   \<and> (\<exists>s_end. run_ops shapes [Of_val Shape Shape circle_val, Copy 1, Assign 1 2, Destroy 2, Destroy 1]
         circle_state = Ok () s_end)
   \<and> (\<exists>s' blk. run_ops shapes (take 2 [Of_val Shape Shape circle_val, Copy 1, Assign 1 2, Destroy 2, Destroy 1])
         circle_state = Ok () s'
       \<and> block_at (heap s') 17 = Some blk \<and> count blk = 3 \<and> observers s' circle_val 17 = 2)"
proof -
  have c: "counted circle_state" by (rule circle_counted)
  have v: "lookup_handle circle_state (val_data circle_val) =
       Some \<lparr>block_ptr = 17, upcast_offset = 0, op_ptr = Circle\<rparr>"
    by (simp add: lookup_handle_def example_defs)
  have t: "val_data circle_val \<notin> set (concat (map touched
        [Of_val Shape Shape circle_val, Copy 1, Assign 1 2, Destroy 2, Destroy 1]))"
    by (simp add: circle_val_def)
  have r: "run_ops shapes [Of_val Shape Shape circle_val, Copy 1, Assign 1 2, Destroy 2, Destroy 1]
         circle_state = Ok ()
        \<lparr>heap = [(1, Obj_cell \<lparr>dyn = Circle, members = [5]\<rparr>),
              (17, Block_cell \<lparr>count = 1, data = 1\<rparr>)],
         handles = [Some \<lparr>block_ptr = 17, upcast_offset = 0, op_ptr = Circle\<rparr>, None, None, None]\<rparr>"
    by (simp add: model_defs example_defs)
  have e: "run_ops shapes (take 2 [Of_val Shape Shape circle_val, Copy 1, Assign 1 2, Destroy 2, Destroy 1])
         circle_state = Ok ()
        \<lparr>heap = [(1, Obj_cell \<lparr>dyn = Circle, members = [5]\<rparr>),
              (17, Block_cell \<lparr>count = 3, data = 1\<rparr>)],
         handles = [Some \<lparr>block_ptr = 17, upcast_offset = 0, op_ptr = Circle\<rparr>,
                    Some \<lparr>block_ptr = 17, upcast_offset = 0, op_ptr = Circle\<rparr>,
                    Some \<lparr>block_ptr = 17, upcast_offset = 0, op_ptr = Circle\<rparr>]\<rparr>"
    by (simp add: model_defs example_defs)
  from counter_is_observers_plus_one [OF c v t r, of 2] c v t r e show ?thesis
    by (auto simp: block_at_def)
qed


section \<open>Assignment to a handle\<close>

lemma assign_run_snoc:
  "assign_run (Suc n) conv this other th s =
     seq (assign_run n conv this other th) (assign_step conv this other) s"
proof (induction n arbitrary: th s)
  case 0
  show ?case by (simp add: seq_def ret_def split: result.splits)
next
  case (Suc n)
  have "assign_run (Suc (Suc n)) conv this other th s =
      seq (assign_step conv this other th) (assign_run (Suc n) conv this other) s"
    by simp
  also have "\<dots> = seq (assign_step conv this other th)
      (\<lambda>t. seq (assign_run n conv this other t) (assign_step conv this other)) s"
    using Suc.IH by (simp add: seq_def split: result.splits)
  also have "\<dots> = seq (assign_run (Suc n) conv this other th) (assign_step conv this other) s"
    by (simp add: seq_def split: result.splits)
  finally show ?case .
qed

lemma assign_run_next:
  "assign_run n conv this other th s = Ok th' s' \<Longrightarrow>
   assign_run (Suc n) conv this other th s = assign_step conv this other th' s'"
  by (simp only: assign_run_snoc seq_Ok)

lemma assign_run_returned:
  "assign_run n conv this other th s = Ok th' s' \<Longrightarrow> pc th' = Returned \<Longrightarrow>
   assign_run (n + k) conv this other th s = Ok th' s'"
proof (induction k)
  case 0
  then show ?case by simp
next
  case (Suc k)
  then have "assign_run (n + k) conv this other th s = Ok th' s'" by simp
  from assign_run_next [OF this] Suc.prems(2) show ?case
    by (simp add: assign_step_def ret_def)
qed

lemma body_is_steps:
  "ptr_assign_body this other = assign_steps None this other"
proof
  fix s
  show "ptr_assign_body this other s = assign_steps None this other s"
    by (simp add: ptr_assign_body_def assign_steps_def eval_nat_numeral assign_step_def
        assign_entry_def lock_def unlock_def adjusted_def seq_def ret_def get_descriptor_def
        exchange_descriptor_def set_descriptor_def increment_def decrement_def load_block_def
        store_def release_def
        split: option.splits result.splits cell.splits)
qed

lemma widen_body_is_steps:
  "ptr_assign_widen_body cs T U this other =
     assign_steps (Some (compute_upcast_offset cs T U)) this other"
proof
  fix s
  show "ptr_assign_widen_body cs T U this other s =
      assign_steps (Some (compute_upcast_offset cs T U)) this other s"
    by (simp add: ptr_assign_widen_body_def assign_steps_def eval_nat_numeral assign_step_def
        assign_entry_def lock_def unlock_def adjusted_def seq_def ret_def get_descriptor_def
        exchange_descriptor_def set_descriptor_def increment_def decrement_def load_block_def
        store_def release_def
        split: option.splits result.splits cell.splits)
qed

lemma assign_run_to:
  "assign_run n conv this other th s = Ok th' s' \<Longrightarrow> m = Suc n \<Longrightarrow>
   assign_run m conv this other th s = assign_step conv this other th' s'"
  by (simp only: assign_run_next)

lemma assign_trace:
  assumes ho: "lookup_handle s other = Some d"
    and blk: "block_at (heap s) (block_ptr d) = Some blk"
    and ht: "lookup_handle s this = Some d0"
    and blk0: "block_at (heap s) (block_ptr d0) = Some blk0"
    and s1: "s1 = s\<lparr>heap := AList.update (block_ptr d) (Block_cell (blk\<lparr>count := count blk + 1\<rparr>)) (heap s)\<rparr>"
    and s2: "s2 = s1\<lparr>handles := (handles s1)[this := Some (adjusted conv d)]\<rparr>"
    and s3: "s3 = s2\<lparr>heap := drop_ref (block_ptr d0)
                 (if block_ptr d0 = block_ptr d then blk\<lparr>count := count blk + 1\<rparr> else blk0) (heap s2)\<rparr>"
  shows "assign_run 1 conv this other assign_entry s = Ok \<lparr>pc = Read_other, owned = [other]\<rparr> s"
    and "assign_run 2 conv this other assign_entry s = Ok \<lparr>pc = Unlock_other d, owned = [other]\<rparr> s"
    and "assign_run 3 conv this other assign_entry s = Ok \<lparr>pc = Increment_new d, owned = []\<rparr> s"
    and "assign_run 4 conv this other assign_entry s =
           Ok \<lparr>pc = Lock_this (adjusted conv d), owned = []\<rparr> s1"
    and "assign_run 5 conv this other assign_entry s =
           Ok \<lparr>pc = Swap (adjusted conv d), owned = [this]\<rparr> s1"
    and "assign_run 6 conv this other assign_entry s = Ok \<lparr>pc = Unlock_this d0, owned = [this]\<rparr> s2"
    and "assign_run 7 conv this other assign_entry s = Ok \<lparr>pc = Decrement_old d0, owned = []\<rparr> s2"
    and "assign_run (8 + n) conv this other assign_entry s = Ok \<lparr>pc = Returned, owned = []\<rparr> s3"
proof -
  have r0: "assign_run 0 conv this other assign_entry s = Ok assign_entry s"
    by (simp add: ret_def)
  show r1: "assign_run 1 conv this other assign_entry s = Ok \<lparr>pc = Read_other, owned = [other]\<rparr> s"
    using assign_run_to [OF r0, of 1] ho
    by (simp add: assign_step_def assign_entry_def lock_def seq_def ret_def)
  show r2: "assign_run 2 conv this other assign_entry s = Ok \<lparr>pc = Unlock_other d, owned = [other]\<rparr> s"
    using assign_run_to [OF r1, of 2] ho
    by (simp add: assign_step_def get_descriptor_def seq_def ret_def)
  show r3: "assign_run 3 conv this other assign_entry s = Ok \<lparr>pc = Increment_new d, owned = []\<rparr> s"
    using assign_run_to [OF r2, of 3]
    by (simp add: assign_step_def unlock_def seq_def ret_def)
  have i: "increment (block_ptr d) s = Ok () s1"
    using blk by (simp add: increment_Ok_iff s1)
  show r4: "assign_run 4 conv this other assign_entry s =
           Ok \<lparr>pc = Lock_this (adjusted conv d), owned = []\<rparr> s1"
    using assign_run_to [OF r3, of 4] i
    by (simp add: assign_step_def seq_def ret_def)
  have h1: "lookup_handle s1 this = Some d0"
    using ht by (simp add: s1)
  show r5: "assign_run 5 conv this other assign_entry s =
           Ok \<lparr>pc = Swap (adjusted conv d), owned = [this]\<rparr> s1"
    using assign_run_to [OF r4, of 5] h1
    by (simp add: assign_step_def lock_def seq_def ret_def)
  have x: "exchange_descriptor this (adjusted conv d) s1 = Ok d0 s2"
    using h1 by (simp add: exchange_descriptor_Ok_iff s2)
  show r6: "assign_run 6 conv this other assign_entry s = Ok \<lparr>pc = Unlock_this d0, owned = [this]\<rparr> s2"
    using assign_run_to [OF r5, of 6] x
    by (simp add: assign_step_def seq_def ret_def)
  show r7: "assign_run 7 conv this other assign_entry s = Ok \<lparr>pc = Decrement_old d0, owned = []\<rparr> s2"
    using assign_run_to [OF r6, of 7]
    by (simp add: assign_step_def unlock_def seq_def ret_def)
  have b2: "block_at (heap s2) (block_ptr d0) =
      Some (if block_ptr d0 = block_ptr d then blk\<lparr>count := count blk + 1\<rparr> else blk0)"
    using blk0 by (simp add: s2 s1 block_at_update)
  have dc: "decrement (block_ptr d0) s2 = Ok () s3"
    using b2 by (simp add: decrement_Ok_iff s3)
  have r8: "assign_run 8 conv this other assign_entry s = Ok \<lparr>pc = Returned, owned = []\<rparr> s3"
    using assign_run_to [OF r7, of 8] dc
    by (simp add: assign_step_def seq_def ret_def)
  from assign_run_returned [OF r8, of n]
  show "assign_run (8 + n) conv this other assign_entry s = Ok \<lparr>pc = Returned, owned = []\<rparr> s3"
    by simp
qed

lemma block_ptr_adjusted [simp]: "block_ptr (adjusted conv d) = block_ptr d"
  by (simp add: adjusted_def split: option.splits)

text \<open>
  Claim C9. Let the parameter \<open>other\<close> and \<open>this\<close> be live handles on live blocks when the
  body of an assignment is entered, the counter of the block of \<open>other\<close> being positive
  as \<open>other\<close> itself is counted in it. Both bodies are these eight steps of the thread
  and nothing else: the lock, the read and the unlock of \<open>other\<close>, the increment of the new
  block, the lock of \<open>this\<close>, the swap of its descriptor, the unlock, the decrement of the
  old block. The descriptor of \<open>this\<close> changes in the one step the thread takes while it
  owns the mutex of \<open>this\<close>. The new block is incremented in the fourth step and the old
  one decremented in the eighth, so that in every state the thread passes the new block
  is live with a counter not below the one at entry: also when the old block is the new
  block (self-assignment), where it is never zero and the block is never freed, even
  from counter one. After the body the counter of the new block is what it was at entry
  when the old block is the same block and one more otherwise, and the old block, when
  it is another one, has one reference less and is freed if that was its last. The
  whole operator, called in a state where the copy of the argument gives \<open>other\<close>, ends
  with the destruction of the parameter, which leaves the new block live.
\<close>

theorem assignment_increments_then_decrements:
  assumes ho: "lookup_handle s other = Some d"
    and blk: "block_at (heap s) (block_ptr d) = Some blk"
    and ht: "lookup_handle s this = Some d0"
    and blk0: "block_at (heap s) (block_ptr d0) = Some blk0"
    and pos: "0 < count blk"
    and s1: "s1 = s\<lparr>heap := AList.update (block_ptr d) (Block_cell (blk\<lparr>count := count blk + 1\<rparr>)) (heap s)\<rparr>"
    and s2: "s2 = s1\<lparr>handles := (handles s1)[this := Some (adjusted conv d)]\<rparr>"
    and s3: "s3 = s2\<lparr>heap := drop_ref (block_ptr d0)
                 (if block_ptr d0 = block_ptr d then blk\<lparr>count := count blk + 1\<rparr> else blk0) (heap s2)\<rparr>"
    and s4: "s4 = s3\<lparr>heap := drop_ref (block_ptr d)
                 (blk\<lparr>count := (if block_ptr d0 = block_ptr d then count blk else count blk + 1)\<rparr>) (heap s3),
               handles := (handles s3)[other := None]\<rparr>"
  shows "ptr_assign_body this other = assign_steps None this other
    \<and> ptr_assign_widen_body cs T U this other =
        assign_steps (Some (compute_upcast_offset cs T U)) this other
    \<and> assign_run 1 conv this other assign_entry s = Ok \<lparr>pc = Read_other, owned = [other]\<rparr> s
    \<and> assign_run 2 conv this other assign_entry s = Ok \<lparr>pc = Unlock_other d, owned = [other]\<rparr> s
    \<and> assign_run 3 conv this other assign_entry s = Ok \<lparr>pc = Increment_new d, owned = []\<rparr> s
    \<and> assign_run 4 conv this other assign_entry s =
        Ok \<lparr>pc = Lock_this (adjusted conv d), owned = []\<rparr> s1
    \<and> assign_run 5 conv this other assign_entry s =
        Ok \<lparr>pc = Swap (adjusted conv d), owned = [this]\<rparr> s1
    \<and> assign_run 6 conv this other assign_entry s = Ok \<lparr>pc = Unlock_this d0, owned = [this]\<rparr> s2
    \<and> assign_run 7 conv this other assign_entry s = Ok \<lparr>pc = Decrement_old d0, owned = []\<rparr> s2
    \<and> assign_run 8 conv this other assign_entry s = Ok \<lparr>pc = Returned, owned = []\<rparr> s3
    \<and> (\<forall>n. assign_run (8 + n) conv this other assign_entry s = Ok \<lparr>pc = Returned, owned = []\<rparr> s3)
    \<and> assign_steps conv this other s = Ok () s3
    \<and> counter s1 (block_ptr d) = Some (count blk + 1)
    \<and> counter s2 (block_ptr d) = Some (count blk + 1)
    \<and> counter s3 (block_ptr d) =
        Some (if block_ptr d0 = block_ptr d then count blk else count blk + 1)
    \<and> counter s3 (block_ptr d0) =
        (if block_ptr d0 = block_ptr d then Some (count blk)
         else if count blk0 = 1 then None else Some (count blk0 - 1))
    \<and> lookup_handle s1 this = Some d0
    \<and> lookup_handle s2 this = Some (adjusted conv d)
    \<and> lookup_handle s3 this = Some (adjusted conv d)
    \<and> (\<forall>n. \<exists>th m k. assign_run n conv this other assign_entry s = Ok th m
          \<and> counter m (block_ptr d) = Some k \<and> count blk \<le> k)
    \<and> ptr_dtor other s3 = Ok () s4
    \<and> (1 < count blk \<or> block_ptr d0 \<noteq> block_ptr d \<longrightarrow>
         counter s4 (block_ptr d) =
           Some (if block_ptr d0 = block_ptr d then count blk - 1 else count blk))
    \<and> (\<forall>s0 arg. ptr_copy arg s0 = Ok other s \<longrightarrow>
         (conv = None \<longrightarrow> ptr_assign this arg s0 = Ok () s4)
         \<and> (conv = Some (compute_upcast_offset cs T U) \<longrightarrow>
              ptr_assign_widen cs T U this arg s0 = Ok () s4))"
proof -
  let ?bn = "block_ptr d" and ?b0 = "block_ptr d0"
  note r = assign_trace [OF ho blk ht blk0 s1 s2 s3]
  from ht have lt: "this < length (handles s)" by (simp add: lookup_handle_Some_iff)
  from ho have lo: "other < length (handles s)" "handles s ! other = Some d"
    by (simp_all add: lookup_handle_Some_iff)
  have c0: "counter s ?bn = Some (count blk)"
    using blk by (simp add: counter_def)
  have c1: "counter s1 ?bn = Some (count blk + 1)"
    by (simp add: counter_def s1 block_at_update)
  have c2: "counter s2 ?bn = Some (count blk + 1)"
    by (simp add: counter_def s2 s1 block_at_update)
  have b3: "block_at (heap s3) ?bn =
      Some (blk\<lparr>count := (if ?b0 = ?bn then count blk else count blk + 1)\<rparr>)"
    using pos by (simp add: s3 s2 s1 block_at_drop_ref block_at_update)
  have c3: "counter s3 ?bn = Some (if ?b0 = ?bn then count blk else count blk + 1)"
    by (simp add: counter_def b3)
  have c30: "counter s3 ?b0 =
        (if ?b0 = ?bn then Some (count blk)
         else if count blk0 = 1 then None else Some (count blk0 - 1))"
    using pos blk0 by (simp add: counter_def s3 s2 s1 block_at_drop_ref block_at_update)
  have h1: "lookup_handle s1 this = Some d0"
    using ht by (simp add: s1)
  have h2: "lookup_handle s2 this = Some (adjusted conv d)"
    using lt by (simp add: s2 s1)
  have h3: "lookup_handle s3 this = Some (adjusted conv d)"
    using h2 by (simp add: s3)
  have steps: "assign_steps conv this other s = Ok () s3"
    using r(8) [of 0] by (simp add: assign_steps_def seq_def ret_def)
  have always: "\<exists>th m k. assign_run n conv this other assign_entry s = Ok th m
          \<and> counter m ?bn = Some k \<and> count blk \<le> k" for n
  proof (cases "n < 8")
    case True
    then have early: "n \<in> {0, 1, 2, 3, 4, 5, 6, 7}" by auto
    have "assign_run 0 conv this other assign_entry s = Ok assign_entry s"
      by (simp add: ret_def)
    with early show ?thesis
      using r(1-7) c0 c1 c2 by (auto simp del: assign_run.simps)
  next
    case False
    then obtain k where "n = 8 + k" using le_Suc_ex [of 8 n] by auto
    with r(8) [of k] c3 show ?thesis by simp
  qed
  have ho3: "\<exists>dd. lookup_handle s3 other = Some dd \<and> block_ptr dd = ?bn"
    using lo lt by (simp add: s3 s2 s1 nth_list_update)
  then obtain dd where dd: "lookup_handle s3 other = Some dd" "block_ptr dd = ?bn" by blast
  have dtor: "ptr_dtor other s3 = Ok () s4"
    unfolding ptr_dtor_Ok_iff using dd b3 by (auto simp: s4)
  have c4: "counter s4 ?bn = Some (if ?b0 = ?bn then count blk - 1 else count blk)"
    if "1 < count blk \<or> ?b0 \<noteq> ?bn"
    using that pos by (auto simp: counter_def s4 block_at_drop_ref)
  have whole: "(conv = None \<longrightarrow> ptr_assign this arg s0 = Ok () s4)
         \<and> (conv = Some (compute_upcast_offset cs T U) \<longrightarrow>
              ptr_assign_widen cs T U this arg s0 = Ok () s4)"
    if cp: "ptr_copy arg s0 = Ok other s" for s0 arg
    using steps dtor cp
    by (auto simp: ptr_assign_def ptr_assign_widen_def body_is_steps widen_body_is_steps seq_def)
  have r8: "assign_run 8 conv this other assign_entry s = Ok \<lparr>pc = Returned, owned = []\<rparr> s3"
    using r(8) [of 0] by simp
  from body_is_steps widen_body_is_steps r r8 steps c1 c2 c3 c30 h1 h2 h3 always dtor c4 whole
  show ?thesis by blast
qed

theorem assignment_increments_then_decrements_witness:
  "lookup_handle short_state 1 = Some \<lparr>block_ptr = 17, upcast_offset = 0, op_ptr = Circle\<rparr>
   \<and> lookup_handle short_state 0 = Some \<lparr>block_ptr = 17, upcast_offset = 0, op_ptr = Circle\<rparr>
   \<and> block_at (heap short_state) 17 = Some \<lparr>count = 1, data = 1\<rparr>
   \<and> assign_run 3 None 0 1 assign_entry short_state =
       Ok \<lparr>pc = Increment_new \<lparr>block_ptr = 17, upcast_offset = 0, op_ptr = Circle\<rparr>, owned = []\<rparr>
         short_state
   \<and> assign_run 5 None 0 1 assign_entry short_state =
       Ok \<lparr>pc = Swap \<lparr>block_ptr = 17, upcast_offset = 0, op_ptr = Circle\<rparr>, owned = [0]\<rparr>
         (short_state\<lparr>heap := [(1, Obj_cell \<lparr>dyn = Circle, members = [5]\<rparr>),
              (17, Block_cell \<lparr>count = 2, data = 1\<rparr>)]\<rparr>)
   \<and> assign_run 7 None 0 1 assign_entry short_state =
       Ok \<lparr>pc = Decrement_old \<lparr>block_ptr = 17, upcast_offset = 0, op_ptr = Circle\<rparr>, owned = []\<rparr>
         (short_state\<lparr>heap := [(1, Obj_cell \<lparr>dyn = Circle, members = [5]\<rparr>),
              (17, Block_cell \<lparr>count = 2, data = 1\<rparr>)]\<rparr>)
   \<and> assign_run 8 None 0 1 assign_entry short_state =
       Ok \<lparr>pc = Returned, owned = []\<rparr> short_state
   \<and> ptr_assign_body 0 1 short_state = Ok () short_state
   \<and> ptr_copy 1 watched_state =
       Ok 2 (watched_state\<lparr>heap := [(1, Obj_cell \<lparr>dyn = Circle, members = [5]\<rparr>),
              (17, Block_cell \<lparr>count = 3, data = 1\<rparr>)],
            handles := handles watched_state @ [Some \<lparr>block_ptr = 17, upcast_offset = 0, op_ptr = Circle\<rparr>]\<rparr>)
   \<and> ptr_assign 1 1 watched_state =
       Ok () (watched_state\<lparr>handles := handles watched_state @ [None]\<rparr>)
   \<and> ptr_assign_widen shapes Shape Circle 1 1 watched_state =
       Ok () (watched_state\<lparr>handles := handles watched_state @ [None]\<rparr>)"
proof -
  let ?d = "\<lparr>block_ptr = 17, upcast_offset = 0, op_ptr = Circle\<rparr>"
  let ?s = "watched_state\<lparr>heap := [(1, Obj_cell \<lparr>dyn = Circle, members = [5]\<rparr>),
              (17, Block_cell \<lparr>count = 3, data = 1\<rparr>)],
            handles := handles watched_state @ [Some ?d]\<rparr>"
  have h1: "lookup_handle short_state 1 = Some ?d" and h0: "lookup_handle short_state 0 = Some ?d"
    by (simp_all add: lookup_handle_def short_state_def)
  have b: "block_at (heap short_state) (block_ptr ?d) = Some \<lparr>count = 1, data = 1\<rparr>"
    by (simp add: block_at_def short_state_def)
  have p: "0 < count \<lparr>count = 1, data = (1 :: addr)\<rparr>" by simp
  note short = assignment_increments_then_decrements [OF h1 b h0 b p refl refl refl refl,
      where conv = None and cs = shapes and T = Shape and U = Circle]
  have g2: "lookup_handle ?s 2 = Some ?d" and g1: "lookup_handle ?s 1 = Some ?d"
    by (simp_all add: lookup_handle_def watched_state_def)
  have c: "block_at (heap ?s) (block_ptr ?d) = Some \<lparr>count = 3, data = 1\<rparr>"
    by (simp add: block_at_def)
  have q: "0 < count \<lparr>count = 3, data = (1 :: addr)\<rparr>" by simp
  have cp: "ptr_copy 1 watched_state = Ok 2 ?s"
    by (simp add: model_defs watched_state_def)
  note same = assignment_increments_then_decrements [OF g2 c g1 c q refl refl refl refl,
      where conv = None and cs = shapes and T = Shape and U = Circle]
  note widen = assignment_increments_then_decrements [OF g2 c g1 c q refl refl refl refl,
      where conv = "Some (compute_upcast_offset shapes Shape Circle)" and cs = shapes
        and T = Shape and U = Circle]
  have r3: "assign_run 3 None 0 1 assign_entry short_state = Ok \<lparr>pc = Increment_new ?d, owned = []\<rparr> short_state"
    using short by blast
  have r5: "assign_run 5 None 0 1 assign_entry short_state =
      Ok \<lparr>pc = Swap ?d, owned = [0]\<rparr>
         (short_state\<lparr>heap := [(1, Obj_cell \<lparr>dyn = Circle, members = [5]\<rparr>),
              (17, Block_cell \<lparr>count = 2, data = 1\<rparr>)]\<rparr>)"
    using short by (simp add: adjusted_def short_state_def)
  have r7: "assign_run 7 None 0 1 assign_entry short_state =
      Ok \<lparr>pc = Decrement_old ?d, owned = []\<rparr>
         (short_state\<lparr>heap := [(1, Obj_cell \<lparr>dyn = Circle, members = [5]\<rparr>),
              (17, Block_cell \<lparr>count = 2, data = 1\<rparr>)]\<rparr>)"
    using short by (simp add: adjusted_def short_state_def)
  have r8: "assign_run 8 None 0 1 assign_entry short_state = Ok \<lparr>pc = Returned, owned = []\<rparr> short_state"
    using short by (simp add: adjusted_def short_state_def drop_ref_def)
  have body: "ptr_assign_body 0 1 short_state = Ok () short_state"
    using short by (simp add: adjusted_def short_state_def drop_ref_def)
  have a1: "ptr_assign 1 1 watched_state = Ok () (watched_state\<lparr>handles := handles watched_state @ [None]\<rparr>)"
    using same cp by (simp add: adjusted_def watched_state_def drop_ref_def)
  have a2: "ptr_assign_widen shapes Shape Circle 1 1 watched_state =
      Ok () (watched_state\<lparr>handles := handles watched_state @ [None]\<rparr>)"
    using widen cp
    by (simp add: adjusted_def watched_state_def drop_ref_def compute_upcast_offset_def c_cast_def
        shapes_def Shape_def Circle_def)
  from h1 h0 b r3 r5 r7 r8 body cp a1 a2 show ?thesis by simp
qed

section \<open>Widening conversions\<close>

text \<open>
  Claim C4. Let \<open>T\<close> be a base of \<open>U\<close> at displacement \<open>k\<close>, and \<open>other\<close> a live handle on a
  live block. Constructing a \<^verbatim>\<open>ptr<T>\<close> from it, or from the container whose member it is,
  and assigning it to a live \<^verbatim>\<open>ptr<T>\<close>, all succeed; nothing is asked of the stored value,
  which the hypotheses do not mention. The new offset is the old one plus \<open>k\<close>, and the
  new handle dereferences to the \<open>T\<close> sub-object of what \<open>other\<close> dereferences to, that is
  \<^verbatim>\<open>static_cast<T*>\<close> of it.
\<close>

theorem widening_keeps_the_value:
  assumes base: "base_disp cs U T = Some k"
    and h: "lookup_handle s other = Some d"
    and b: "block_at (heap s) (block_ptr d) = Some blk"
  shows "compute_upcast_offset cs T U = of_nat k
    \<and> c_cast cs T U p = p + of_nat k
    \<and> ptr_arrow other s = Ok (data blk + upcast_offset d) s
    \<and> (\<exists>this s'. ptr_widen cs T U other s = Ok this s'
          \<and> lookup_handle s' this = Some (d\<lparr>upcast_offset := upcast_offset d + of_nat k\<rparr>)
          \<and> ptr_arrow this s' = Ok (c_cast cs T U (data blk + upcast_offset d)) s'
          \<and> ptr_arrow other s' = Ok (data blk + upcast_offset d) s')
    \<and> (\<forall>v. val_data v = other \<longrightarrow>
         (\<exists>this s'. ptr_of_val cs T U v s = Ok this s'
          \<and> lookup_handle s' this = Some (d\<lparr>upcast_offset := upcast_offset d + of_nat k\<rparr>)
          \<and> ptr_arrow this s' = Ok (c_cast cs T U (data blk + upcast_offset d)) s'
          \<and> val_arrow v s' = Ok (data blk + upcast_offset d) s'))
    \<and> (\<forall>this d0 blk0. lookup_handle s this = Some d0
           \<and> block_at (heap s) (block_ptr d0) = Some blk0 \<and> 0 < count blk \<longrightarrow>
         (\<exists>s'. ptr_assign_widen cs T U this other s = Ok () s'
          \<and> lookup_handle s' this = Some (d\<lparr>upcast_offset := upcast_offset d + of_nat k\<rparr>)
          \<and> ptr_arrow this s' = Ok (c_cast cs T U (data blk + upcast_offset d)) s'))"
proof -
  let ?s' = "s\<lparr>heap := AList.update (block_ptr d) (Block_cell (blk\<lparr>count := count blk + 1\<rparr>)) (heap s),
                 handles := handles s @
                   [Some (d\<lparr>upcast_offset := upcast_offset d + compute_upcast_offset cs T U\<rparr>)]\<rparr>"
  have o: "compute_upcast_offset cs T U = of_nat k"
    using base by (rule upcast_offset_base)
  have c: "c_cast cs T U q = q + of_nat k" for q
    using base by (simp add: c_cast_def)
  have a: "ptr_arrow other s = Ok (data blk + upcast_offset d) s"
    using h b by (rule ptr_arrow_eval)
  have w: "ptr_widen cs T U other s = Ok (length (handles s)) ?s'"
    using h b by (simp add: ptr_widen_Ok_iff)
  note ws = widen_state [OF base h b refl]
  have 1: "\<exists>this s'. ptr_widen cs T U other s = Ok this s'
          \<and> lookup_handle s' this = Some (d\<lparr>upcast_offset := upcast_offset d + of_nat k\<rparr>)
          \<and> ptr_arrow this s' = Ok (c_cast cs T U (data blk + upcast_offset d)) s'
          \<and> ptr_arrow other s' = Ok (data blk + upcast_offset d) s'"
    using w ws by blast
  have 2: "\<exists>this s'. ptr_of_val cs T U v s = Ok this s'
          \<and> lookup_handle s' this = Some (d\<lparr>upcast_offset := upcast_offset d + of_nat k\<rparr>)
          \<and> ptr_arrow this s' = Ok (c_cast cs T U (data blk + upcast_offset d)) s'
          \<and> val_arrow v s' = Ok (data blk + upcast_offset d) s'"
    if v: "val_data v = other" for v
  proof -
    have "ptr_of_val cs T U v s = Ok (length (handles s)) ?s'"
      using h b v by (simp add: ptr_of_val_Ok_iff)
    with ws v show ?thesis unfolding val_arrow_def by blast
  qed
  have 3: "\<exists>s'. ptr_assign_widen cs T U this other s = Ok () s'
          \<and> lookup_handle s' this = Some (d\<lparr>upcast_offset := upcast_offset d + of_nat k\<rparr>)
          \<and> ptr_arrow this s' = Ok (c_cast cs T U (data blk + upcast_offset d)) s'"
    if t: "lookup_handle s this = Some d0" "block_at (heap s) (block_ptr d0) = Some blk0" "0 < count blk"
    for this d0 blk0
  proof -
    let ?d' = "d\<lparr>upcast_offset := upcast_offset d + compute_upcast_offset cs T U\<rparr>"
    have "block_ptr ?d' = block_ptr d" by simp
    from assign_chain [OF h b t this] obtain s1 s2 s3 s4 s5 where
      st: "ptr_copy other s = Ok (length (handles s)) s1"
        "get_descriptor (length (handles s)) s1 = Ok d s1"
        "increment (block_ptr d) s1 = Ok () s2"
        "exchange_descriptor this ?d' s2 = Ok d0 s3"
        "decrement (block_ptr d0) s3 = Ok () s4"
        "ptr_dtor (length (handles s)) s4 = Ok () s5"
      and l5: "lookup_handle s5 this = Some ?d'"
      and d5: "map_option data (block_at (heap s5) (block_ptr d)) = Some (data blk)"
      by auto
    have whole: "ptr_assign_widen cs T U this other s = Ok () s5"
      using st by (simp add: ptr_assign_widen_def ptr_assign_widen_body_def seq_def)
    from d5 obtain blk5 where b5: "block_at (heap s5) (block_ptr ?d') = Some blk5" "data blk5 = data blk"
      by auto
    have "ptr_arrow this s5 = Ok (c_cast cs T U (data blk + upcast_offset d)) s5"
      using ptr_arrow_eval [OF l5 b5(1)] b5(2) o c by (simp add: add.assoc)
    with whole l5 o show ?thesis by auto
  qed
  from o c a 1 2 3 show ?thesis by blast
qed


theorem widening_keeps_the_value_witness:
  "base_disp shapes Named_circle Shape = Some 16
   \<and> lookup_handle named_own_state 0 = Some \<lparr>block_ptr = 33, upcast_offset = 0, op_ptr = Named_circle\<rparr>
   \<and> block_at (heap named_own_state) 33 = Some \<lparr>count = 2, data = 1\<rparr>
   \<and> ptr_arrow 0 named_own_state = Ok 1 named_own_state
   \<and> c_cast shapes Shape Named_circle 1 = 17
   \<and> seq (ptr_widen shapes Shape Named_circle 0) ptr_arrow named_own_state =
       Ok 17 \<lparr>heap = [(1, Obj_cell \<lparr>dyn = Named_circle, members = [3]\<rparr>),
                      (33, Block_cell \<lparr>count = 3, data = 1\<rparr>)],
              handles = [Some \<lparr>block_ptr = 33, upcast_offset = 0, op_ptr = Named_circle\<rparr>,
                         Some \<lparr>block_ptr = 33, upcast_offset = 16, op_ptr = Named_circle\<rparr>,
                         Some \<lparr>block_ptr = 33, upcast_offset = 16, op_ptr = Named_circle\<rparr>]\<rparr>
   \<and> seq (ptr_assign_widen shapes Shape Named_circle 1 0) (\<lambda>_. ptr_arrow 1) named_own_state =
       Ok 17 (named_own_state\<lparr>handles := handles named_own_state @ [None]\<rparr>)"
proof -
  let ?d = "\<lparr>block_ptr = 33, upcast_offset = 0, op_ptr = Named_circle\<rparr>"
  have k: "base_disp shapes Named_circle Shape = Some 16"
    by (simp add: example_defs)
  have h: "lookup_handle named_own_state 0 = Some ?d"
    by (simp add: lookup_handle_def example_defs)
  have b: "block_at (heap named_own_state) (block_ptr ?d) = Some \<lparr>count = 2, data = 1\<rparr>"
    by (simp add: block_at_def example_defs)
  have e1: "seq (ptr_widen shapes Shape Named_circle 0) ptr_arrow named_own_state =
       Ok 17 \<lparr>heap = [(1, Obj_cell \<lparr>dyn = Named_circle, members = [3]\<rparr>),
                      (33, Block_cell \<lparr>count = 3, data = 1\<rparr>)],
              handles = [Some \<lparr>block_ptr = 33, upcast_offset = 0, op_ptr = Named_circle\<rparr>,
                         Some \<lparr>block_ptr = 33, upcast_offset = 16, op_ptr = Named_circle\<rparr>,
                         Some \<lparr>block_ptr = 33, upcast_offset = 16, op_ptr = Named_circle\<rparr>]\<rparr>"
    by (simp add: model_defs example_defs)
  have e2: "seq (ptr_assign_widen shapes Shape Named_circle 1 0) (\<lambda>_. ptr_arrow 1) named_own_state =
       Ok 17 (named_own_state\<lparr>handles := handles named_own_state @ [None]\<rparr>)"
    by (simp add: model_defs example_defs)
  from widening_keeps_the_value [OF k h b, of 1] k h b e1 e2 show ?thesis by simp
qed

section \<open>Narrowing conversions\<close>

text \<open>
  Claim C1, where the code departs from it. A \<^verbatim>\<open>Circle\<close> is stored and observed through a
  \<^verbatim>\<open>ptr<Shape>\<close>; it is not a \<^verbatim>\<open>Square\<close>. The constructor from the container terminates,
  but the constructor from the handle returns a \<^verbatim>\<open>ptr<Square>\<close> on the circle: its
  \<^verbatim>\<open>dynamic_cast\<close> is to the source class and its result is not looked at. Moreover, where
  the base lies at a displacement, as \<^verbatim>\<open>Shape\<close> in \<^verbatim>\<open>Named_circle\<close>, a narrowing that is
  allowed subtracts the negative offset of the downcast and ends 32 bytes above the object.
\<close>

theorem narrowing_from_handle_is_unchecked:
  "dynamic_cast shapes Square Shape 1 watched_state = Ok nullptr watched_state
   \<and> ptr_narrow_val shapes Square Shape circle_val watched_state = Fail Terminate watched_state
   \<and> ptr_narrow shapes Square Shape 1 watched_state =
       Ok 2 \<lparr>heap = [(1, Obj_cell \<lparr>dyn = Circle, members = [5]\<rparr>),
                      (17, Block_cell \<lparr>count = 3, data = 1\<rparr>)],
             handles = [Some \<lparr>block_ptr = 17, upcast_offset = 0, op_ptr = Circle\<rparr>,
                        Some \<lparr>block_ptr = 17, upcast_offset = 0, op_ptr = Circle\<rparr>,
                        Some \<lparr>block_ptr = 17, upcast_offset = 0, op_ptr = Circle\<rparr>]\<rparr>
   \<and> dynamic_cast shapes Named_circle Shape 17 named_state = Ok 1 named_state
   \<and> seq (ptr_narrow_val shapes Named_circle Shape named_val) ptr_arrow named_state =
       Ok 33 \<lparr>heap = [(1, Obj_cell \<lparr>dyn = Named_circle, members = [3]\<rparr>),
                      (33, Block_cell \<lparr>count = 2, data = 1\<rparr>)],
             handles = [Some \<lparr>block_ptr = 33, upcast_offset = 16, op_ptr = Named_circle\<rparr>,
                        Some \<lparr>block_ptr = 33, upcast_offset = 32, op_ptr = Named_circle\<rparr>]\<rparr>"
  by (simp add: model_defs example_defs)


section \<open>Copies and clones of a container\<close>

text \<open>
  Claim C3. When the copy constructor returns \<open>w\<close> for \<open>v\<close>, the handle of \<open>w\<close> is a new
  handle on a block at an address that was not in use, other than the block of \<open>v\<close>, with
  counter one; that block points to a value at an address that was not in use either,
  which is what the copy constructor of the stored class makes of the value of \<open>v\<close>. The
  handle, block and value of \<open>v\<close> are as before. Writing the members of the value through
  \<open>w\<close> leaves what is read through \<open>v\<close> unchanged, and the other way round.
\<close>

theorem copy_is_independent:
  assumes cp: "val_copy cs SmallStorageSize ss v s = Ok w s'"
  shows "\<exists>d blk ob d' blk' ob'.
      lookup_handle s (val_data v) = Some d
    \<and> block_at (heap s) (block_ptr d) = Some blk
    \<and> map_of (heap s) (data blk) = Some (Obj_cell ob)
    \<and> lookup_handle s' (val_data w) = Some d'
    \<and> block_at (heap s') (block_ptr d') = Some blk'
    \<and> map_of (heap s') (data blk') = Some (Obj_cell ob')
    \<and> val_data w \<noteq> val_data v
    \<and> block_ptr d' \<noteq> block_ptr d \<and> block_ptr d' \<notin> fst ` set (heap s)
    \<and> data blk' \<noteq> data blk \<and> data blk' \<notin> fst ` set (heap s)
    \<and> count blk' = 1
    \<and> ob' = \<lparr>dyn = op_ptr d, members = copy_construct cs (op_ptr d) (members ob)\<rparr>
    \<and> lookup_handle s' (val_data v) = Some d
    \<and> block_at (heap s') (block_ptr d) = Some blk
    \<and> val_read v s' = Ok ob s'
    \<and> val_read w s' = Ok ob' s'
    \<and> (\<forall>ms. \<exists>s''. val_write w ms s' = Ok () s''
          \<and> val_read w s'' = Ok (ob'\<lparr>members := ms\<rparr>) s''
          \<and> val_read v s'' = Ok ob s'')
    \<and> (\<forall>ms. \<exists>s''. val_write v ms s' = Ok () s''
          \<and> val_read v s'' = Ok (ob\<lparr>members := ms\<rparr>) s''
          \<and> val_read w s'' = Ok ob' s'')"
proof -
  from cp obtain d' s1 h where
    c: "ptr_clone cs (val_data v) 0 nullptr s = Ok d' s1"
    and pd: "ptr_of_descriptor d' s1 = Ok h s'"
    and w: "w = \<lparr>small_storage = ss, val_data = h\<rparr>"
    by (auto simp: val_copy_def emplacement_ptr_def seq_Ok_iff ret_Ok_iff)
  from ptr_clone_fresh [OF c] obtain d blk ob a where
    f: "lookup_handle s (val_data v) = Some d"
      "block_at (heap s) (block_ptr d) = Some blk"
      "map_of (heap s) (data blk) = Some (Obj_cell ob)"
      "a \<noteq> nullptr" "a \<notin> fst ` set (heap s)" "block_ptr d' \<notin> fst ` set (heap s)" "block_ptr d' \<noteq> a"
      "handles s1 = handles s"
    and mp: "map_of (heap s1) =
        (map_of (heap s))
          (a \<mapsto> Obj_cell \<lparr>dyn = op_ptr d, members = copy_construct cs (op_ptr d) (members ob)\<rparr>,
           block_ptr d' \<mapsto> Block_cell \<lparr>count = 0, data = a\<rparr>)"
    by blast
  let ?b = "block_ptr d'" and ?ob' = "\<lparr>dyn = op_ptr d, members = copy_construct cs (op_ptr d) (members ob)\<rparr>"
  have b1: "block_at (heap s1) ?b = Some \<lparr>count = 0, data = a\<rparr>"
    by (simp add: block_at_def mp)
  from pd b1 have h: "h = length (handles s)"
    and s': "s' = s1\<lparr>heap := AList.update ?b (Block_cell \<lparr>count = 1, data = a\<rparr>) (heap s1),
                 handles := handles s @ [Some d']\<rparr>"
    by (auto simp: ptr_of_descriptor_Ok_iff f(8))
  have mp': "map_of (heap s') =
        (map_of (heap s))(a \<mapsto> Obj_cell ?ob', ?b \<mapsto> Block_cell \<lparr>count = 1, data = a\<rparr>)"
    by (simp add: s' update_conv' mp)
  from f(1) have lv: "val_data v < length (handles s)" "handles s ! val_data v = Some d"
    by (simp_all add: lookup_handle_Some_iff)
  have bd: "block_ptr d \<in> fst ` set (heap s)" using f(2) by (rule block_at_dom)
  have dd: "data blk \<in> fst ` set (heap s)" using f(3) by (rule map_of_dom)
  have ne: "block_ptr d \<noteq> a" "block_ptr d \<noteq> ?b" "data blk \<noteq> a" "data blk \<noteq> ?b"
    using in_notin_neq [OF bd f(5)] in_notin_neq [OF bd f(6)]
      in_notin_neq [OF dd f(5)] in_notin_neq [OF dd f(6)] by simp_all
  have nb: "block_ptr d \<noteq> data blk"
    using f(2,3) by (auto simp: block_at_Some_iff)
  have hw: "lookup_handle s' (val_data w) = Some d'"
    by (simp add: w h s')
  have hv: "lookup_handle s' (val_data v) = Some d"
    using lv by (simp add: s' nth_append)
  have bw: "block_at (heap s') ?b = Some \<lparr>count = 1, data = a\<rparr>"
    by (simp add: block_at_def mp')
  have bv: "block_at (heap s') (block_ptr d) = Some blk"
    using f(2) ne by (simp add: block_at_def mp')
  have ow: "map_of (heap s') a = Some (Obj_cell ?ob')"
    using f(7) by (simp add: mp')
  have ov: "map_of (heap s') (data blk) = Some (Obj_cell ob)"
    using f(3) ne by (simp add: mp')
  have wv: "val_data w \<noteq> val_data v"
    using lv by (simp add: w h)
  have rv: "val_read v s' = Ok ob s'"
    using hv bv ov by (simp add: val_read_def seq_def get_descriptor_eval load_block_eval load_obj_Ok_iff)
  have rw: "val_read w s' = Ok ?ob' s'"
    using hw bw ow by (simp add: val_read_def seq_def get_descriptor_eval load_block_eval load_obj_Ok_iff)
  have m1: "\<exists>s''. val_write w ms s' = Ok () s''
          \<and> val_read w s'' = Ok (?ob'\<lparr>members := ms\<rparr>) s''
          \<and> val_read v s'' = Ok ob s''" for ms
  proof -
    let ?s'' = "s'\<lparr>heap := AList.update a (Obj_cell (?ob'\<lparr>members := ms\<rparr>)) (heap s')\<rparr>"
    have 1: "val_write w ms s' = Ok () ?s''"
      using hw bw ow
      by (simp add: val_write_def seq_Ok_iff get_descriptor_Ok_iff load_block_Ok load_obj_Ok_iff
          store_Ok_iff)
    have 2: "val_read w ?s'' = Ok (?ob'\<lparr>members := ms\<rparr>) ?s''"
      using hw bw f(7)
      by (simp add: val_read_def seq_Ok_iff get_descriptor_Ok_iff load_block_Ok load_obj_Ok_iff
          block_at_update update_conv')
    have 3: "val_read v ?s'' = Ok ob ?s''"
      using hv bv ov ne
      by (simp add: val_read_def seq_Ok_iff get_descriptor_Ok_iff load_block_Ok load_obj_Ok_iff
          block_at_update update_conv')
    from 1 2 3 show ?thesis by blast
  qed
  have m2: "\<exists>s''. val_write v ms s' = Ok () s''
          \<and> val_read v s'' = Ok (ob\<lparr>members := ms\<rparr>) s''
          \<and> val_read w s'' = Ok ?ob' s''" for ms
  proof -
    let ?s'' = "s'\<lparr>heap := AList.update (data blk) (Obj_cell (ob\<lparr>members := ms\<rparr>)) (heap s')\<rparr>"
    have 1: "val_write v ms s' = Ok () ?s''"
      using hv bv ov
      by (simp add: val_write_def seq_Ok_iff get_descriptor_Ok_iff load_block_Ok load_obj_Ok_iff
          store_Ok_iff)
    have 2: "val_read v ?s'' = Ok (ob\<lparr>members := ms\<rparr>) ?s''"
      using hv bv ne nb
      by (simp add: val_read_def seq_Ok_iff get_descriptor_Ok_iff load_block_Ok load_obj_Ok_iff
          block_at_update update_conv')
    have 3: "val_read w ?s'' = Ok ?ob' ?s''"
      using hw bw ow ne f(7)
      by (simp add: val_read_def seq_Ok_iff get_descriptor_Ok_iff load_block_Ok load_obj_Ok_iff
          block_at_update update_conv')
    from 1 2 3 show ?thesis by blast
  qed
  have c1: "count \<lparr>count = 1, data = a\<rparr> = 1" "data \<lparr>count = (1::int), data = a\<rparr> = a" by simp_all
  show ?thesis
    apply (rule exI [of _ d], rule exI [of _ blk], rule exI [of _ ob], rule exI [of _ d'])
    apply (rule exI [of _ "\<lparr>count = 1, data = a\<rparr>"], rule exI [of _ ?ob'])
    using f(1,2,3,5,6) hw bw ow wv ne hv bv rv rw m1 m2
    apply (simp only: c1)
    apply (intro conjI allI)
                      apply (assumption | simp)+
    done
qed


theorem copy_is_independent_witness:
  "val_copy shapes 16 8192 circle_val circle_state =
     Ok \<lparr>small_storage = 8192, val_data = 1\<rparr>
       \<lparr>heap = [(1, Obj_cell \<lparr>dyn = Circle, members = [5]\<rparr>),
                (17, Block_cell \<lparr>count = 1, data = 1\<rparr>),
                (33, Obj_cell \<lparr>dyn = Circle, members = [5]\<rparr>),
                (49, Block_cell \<lparr>count = 1, data = 33\<rparr>)],
        handles = [Some \<lparr>block_ptr = 17, upcast_offset = 0, op_ptr = Circle\<rparr>,
                   Some \<lparr>block_ptr = 49, upcast_offset = 0, op_ptr = Circle\<rparr>]\<rparr>
   \<and> seq (val_copy shapes 16 8192 circle_val) (\<lambda>w.
       seq (val_write w [10]) (\<lambda>_. val_read circle_val)) circle_state =
     Ok \<lparr>dyn = Circle, members = [5]\<rparr>
       \<lparr>heap = [(1, Obj_cell \<lparr>dyn = Circle, members = [5]\<rparr>),
                (17, Block_cell \<lparr>count = 1, data = 1\<rparr>),
                (33, Obj_cell \<lparr>dyn = Circle, members = [10]\<rparr>),
                (49, Block_cell \<lparr>count = 1, data = 33\<rparr>)],
        handles = [Some \<lparr>block_ptr = 17, upcast_offset = 0, op_ptr = Circle\<rparr>,
                   Some \<lparr>block_ptr = 49, upcast_offset = 0, op_ptr = Circle\<rparr>]\<rparr>"
proof -
  let ?s' = "\<lparr>heap = [(1, Obj_cell \<lparr>dyn = Circle, members = [5]\<rparr>),
                (17, Block_cell \<lparr>count = 1, data = 1\<rparr>),
                (33, Obj_cell \<lparr>dyn = Circle, members = [5]\<rparr>),
                (49, Block_cell \<lparr>count = 1, data = 33\<rparr>)],
        handles = [Some \<lparr>block_ptr = 17, upcast_offset = 0, op_ptr = Circle\<rparr>,
                   Some \<lparr>block_ptr = 49, upcast_offset = 0, op_ptr = Circle\<rparr>]\<rparr>"
  have cp: "val_copy shapes 16 8192 circle_val circle_state = Ok \<lparr>small_storage = 8192, val_data = 1\<rparr> ?s'"
    by (simp add: model_defs example_defs)
  have wr: "seq (val_write \<lparr>small_storage = 8192, val_data = 1\<rparr> [10]) (\<lambda>_. val_read circle_val) ?s' =
     Ok \<lparr>dyn = Circle, members = [5]\<rparr>
       \<lparr>heap = [(1, Obj_cell \<lparr>dyn = Circle, members = [5]\<rparr>),
                (17, Block_cell \<lparr>count = 1, data = 1\<rparr>),
                (33, Obj_cell \<lparr>dyn = Circle, members = [10]\<rparr>),
                (49, Block_cell \<lparr>count = 1, data = 33\<rparr>)],
        handles = [Some \<lparr>block_ptr = 17, upcast_offset = 0, op_ptr = Circle\<rparr>,
                   Some \<lparr>block_ptr = 49, upcast_offset = 0, op_ptr = Circle\<rparr>]\<rparr>"
    by (simp add: model_defs example_defs)
  from copy_is_independent [OF cp] cp wr show ?thesis by (simp add: seq_Ok)
qed

text \<open>
  Claim C10. When \<^verbatim>\<open>clone()\<close> returns \<open>p\<close> in a state without dangling handles, \<open>p\<close> is the
  address \<open>a\<close> of a fresh copy of the value plus the stored offset, and a fresh block at \<open>b\<close>
  with counter zero points to \<open>a\<close>. No handle was made and no handle names \<open>b\<close>; whatever
  operations on handles follow, the block is still there with counter zero.
\<close>

theorem clone_leaks_its_block:
  assumes cl: "val_clone cs this s = Ok p s'"
    and nd: "no_dangling s"
  shows "\<exists>d blk ob a b.
      lookup_handle s (val_data this) = Some d
    \<and> block_at (heap s) (block_ptr d) = Some blk
    \<and> map_of (heap s) (data blk) = Some (Obj_cell ob)
    \<and> a \<notin> fst ` set (heap s) \<and> b \<notin> fst ` set (heap s) \<and> a \<noteq> b
    \<and> map_of (heap s') a =
         Some (Obj_cell \<lparr>dyn = op_ptr d, members = copy_construct cs (op_ptr d) (members ob)\<rparr>)
    \<and> p = a + upcast_offset d
    \<and> block_at (heap s') b = Some \<lparr>count = 0, data = a\<rparr>
    \<and> handles s' = handles s
    \<and> refs (handles s') b = 0
    \<and> (\<forall>x. x \<noteq> a \<and> x \<noteq> b \<longrightarrow> map_of (heap s') x = map_of (heap s) x)
    \<and> (\<forall>ops u s''. run_ops cs ops s' = Ok u s'' \<longrightarrow>
          block_at (heap s'') b = Some \<lparr>count = 0, data = a\<rparr> \<and> refs (handles s'') b = 0)"
proof -
  from cl obtain d' s1 blk' where
    c: "ptr_clone cs (val_data this) 0 nullptr s = Ok d' s1"
    and l: "block_at (heap s1) (block_ptr d') = Some blk'" "s' = s1"
    and p: "p = data blk' + upcast_offset d'"
    by (auto simp: val_clone_def seq_Ok_iff load_block_Ok ret_Ok_iff)
  from ptr_clone_fresh [OF c] obtain d blk ob a where
    f: "lookup_handle s (val_data this) = Some d"
      "block_at (heap s) (block_ptr d) = Some blk"
      "map_of (heap s) (data blk) = Some (Obj_cell ob)"
      "d' = \<lparr>block_ptr = block_ptr d', upcast_offset = upcast_offset d + 0, op_ptr = op_ptr d\<rparr>"
      "a \<noteq> nullptr" "a \<notin> fst ` set (heap s)" "block_ptr d' \<notin> fst ` set (heap s)" "block_ptr d' \<noteq> a"
      "handles s1 = handles s"
    and mp: "map_of (heap s1) =
        (map_of (heap s))
          (a \<mapsto> Obj_cell \<lparr>dyn = op_ptr d, members = copy_construct cs (op_ptr d) (members ob)\<rparr>,
           block_ptr d' \<mapsto> Block_cell \<lparr>count = 0, data = a\<rparr>)"
    by blast
  let ?b = "block_ptr d'"
  have b1: "block_at (heap s1) ?b = Some \<lparr>count = 0, data = a\<rparr>"
    by (simp add: block_at_def mp)
  with l have blk': "blk' = \<lparr>count = 0, data = a\<rparr>" by simp
  have u: "upcast_offset d' = upcast_offset d"
    using f(4) by (metis add.right_neutral descriptor_t.select_convs(2))
  have pa: "p = a + upcast_offset d" using p blk' u by simp
  have ma: "map_of (heap s1) a =
         Some (Obj_cell \<lparr>dyn = op_ptr d, members = copy_construct cs (op_ptr d) (members ob)\<rparr>)"
    using f(8) by (simp add: mp)
  have r0: "refs (handles s1) ?b = 0"
  proof -
    have "\<not> points_to ?b x" if "x \<in> set (handles s)" for x
    proof (cases x)
      case None
      then show ?thesis by simp
    next
      case (Some e)
      with that nd have "block_at (heap s) (block_ptr e) \<noteq> None"
        by (auto simp: no_dangling_def list_all_iff)
      then have "block_ptr e \<in> fst ` set (heap s)" using block_at_dom by blast
      then have "block_ptr e \<noteq> block_ptr d'" using f(7) by (rule in_notin_neq)
      with Some show ?thesis by simp
    qed
    then show ?thesis by (simp add: refs_def f(9) filter_empty_conv)
  qed
  have fr: "\<forall>x. x \<noteq> a \<and> x \<noteq> ?b \<longrightarrow> map_of (heap s1) x = map_of (heap s) x"
    by (simp add: mp)
  have pm: "\<forall>ops u s''. run_ops cs ops s1 = Ok u s'' \<longrightarrow>
          block_at (heap s'') ?b = Some \<lparr>count = 0, data = a\<rparr> \<and> refs (handles s'') ?b = 0"
    using run_ops_unnamed [OF r0] b1 by simp
  from f(1,2,3,6,7,8) ma pa b1 f(9) r0 fr pm show ?thesis
    unfolding l(2) by blast
qed


theorem clone_leaks_its_block_witness:
  "no_dangling circle_state
   \<and> val_clone shapes circle_val circle_state =
     Ok 33
       \<lparr>heap = [(1, Obj_cell \<lparr>dyn = Circle, members = [5]\<rparr>),
                (17, Block_cell \<lparr>count = 1, data = 1\<rparr>),
                (33, Obj_cell \<lparr>dyn = Circle, members = [5]\<rparr>),
                (49, Block_cell \<lparr>count = 0, data = 33\<rparr>)],
        handles = [Some \<lparr>block_ptr = 17, upcast_offset = 0, op_ptr = Circle\<rparr>]\<rparr>
   \<and> seq (val_clone shapes circle_val) (\<lambda>p. val_dtor shapes circle_val) circle_state =
     Ok ()
       \<lparr>heap = [(33, Obj_cell \<lparr>dyn = Circle, members = [5]\<rparr>),
                (49, Block_cell \<lparr>count = 0, data = 33\<rparr>)],
        handles = [None]\<rparr>"
proof -
  have nd: "no_dangling circle_state"
    by (simp add: no_dangling_def circle_state_def block_at_def)
  have cl: "val_clone shapes circle_val circle_state =
     Ok 33
       \<lparr>heap = [(1, Obj_cell \<lparr>dyn = Circle, members = [5]\<rparr>),
                (17, Block_cell \<lparr>count = 1, data = 1\<rparr>),
                (33, Obj_cell \<lparr>dyn = Circle, members = [5]\<rparr>),
                (49, Block_cell \<lparr>count = 0, data = 33\<rparr>)],
        handles = [Some \<lparr>block_ptr = 17, upcast_offset = 0, op_ptr = Circle\<rparr>]\<rparr>"
    by (simp add: model_defs example_defs)
  have dt: "val_dtor shapes circle_val
       \<lparr>heap = [(1, Obj_cell \<lparr>dyn = Circle, members = [5]\<rparr>),
                (17, Block_cell \<lparr>count = 1, data = 1\<rparr>),
                (33, Obj_cell \<lparr>dyn = Circle, members = [5]\<rparr>),
                (49, Block_cell \<lparr>count = 0, data = 33\<rparr>)],
        handles = [Some \<lparr>block_ptr = 17, upcast_offset = 0, op_ptr = Circle\<rparr>]\<rparr> =
     Ok ()
       \<lparr>heap = [(33, Obj_cell \<lparr>dyn = Circle, members = [5]\<rparr>),
                (49, Block_cell \<lparr>count = 0, data = 33\<rparr>)],
        handles = [None]\<rparr>"
    by (simp add: model_defs example_defs)
  from clone_leaks_its_block [OF cl nd] nd cl dt show ?thesis by (simp add: seq_Ok)
qed


end
